theory Spec2Isabelle
  imports Complex_Main "HOL-Library.Word"
begin

section \<open>Data model\<close>

text \<open>
  The text engine of \<^verbatim>\<open>rts/Rendering/Fonts/glFont.cpp\<close> works on byte strings
  (\<^verbatim>\<open>std::u8string\<close>), on decoded code points (\<^verbatim>\<open>char32_t\<close>) and on colours
  (\<^verbatim>\<open>float4\<close>). Bytes are 8-bit words. Indices and code points are natural numbers: the
  source's \<^verbatim>\<open>int\<close> indices do not overflow for texts shorter than \<open>2^31 - 4\<close> bytes.
  Floating-point values are modelled as real numbers. Rounding is part of the model where a
  result is decided by it, in the outline contrast selector.
\<close>

type_synonym char8 = "8 word"
type_synonym u8string = "char8 list"
type_synonym float4 = "real \<times> real \<times> real \<times> real"

text \<open>
  The header \<^verbatim>\<open>glFont.h\<close> and the base classes \<^verbatim>\<open>CTextWrap\<close> and
  \<^verbatim>\<open>CFontTexture\<close> are not among the sources. What the functions below take from
  them are the two reserved indicator bytes and the glyph tables of the loaded face; they are
  the fields of the record \<open>font_env\<close>, a parameter of every function that uses them.
  \<open>glyph_advance\<close>, \<open>glyph_descender\<close> and \<open>glyph_height\<close> are the members
  \<^verbatim>\<open>advance\<close>, \<^verbatim>\<open>descender\<close> and \<^verbatim>\<open>height\<close> of \<^verbatim>\<open>GetGlyph(c)\<close>;
  \<open>GetKerning l r\<close> is \<^verbatim>\<open>GetKerning(GetGlyph(l), GetGlyph(r))\<close>.
\<close>

record font_env =
  ColorCodeIndicator :: char8
  ColorResetIndicator :: char8
  glyph_advance :: "nat \<Rightarrow> real"
  glyph_descender :: "nat \<Rightarrow> real"
  glyph_height :: "nat \<Rightarrow> real"
  GetKerning :: "nat \<Rightarrow> nat \<Rightarrow> real"
  GetLineHeight :: real
  GetDescender :: real

section \<open>Byte-level scanning\<close>

text \<open>
  \<^verbatim>\<open>SkipColorCodes\<close>: while the byte at \<open>idx\<close> is the colour indicator, step over four
  bytes; the result is clamped to the length of the text.
\<close>

function SkipColorCodes_loop :: "font_env \<Rightarrow> u8string \<Rightarrow> nat \<Rightarrow> nat" where
  "SkipColorCodes_loop F text idx =
     (if idx < length text \<and> text ! idx = ColorCodeIndicator F
      then SkipColorCodes_loop F text (idx + 4)
      else idx)"
  by pat_completeness auto
termination
  by (relation "measure (\<lambda>(F, text, idx). length text - idx)") auto

declare SkipColorCodes_loop.simps [simp del]

definition SkipColorCodes :: "font_env \<Rightarrow> u8string \<Rightarrow> nat \<Rightarrow> nat" where
  "SkipColorCodes F text idx = min (length text) (SkipColorCodes_loop F text idx)"

text \<open>
  \<^verbatim>\<open>CglFont::StripColorCodes_\<close>: the loop over \<open>i\<close>; an indicator byte makes the loop
  step over it and the three bytes after it (\<^verbatim>\<open>i += 3\<close> and the loop's \<^verbatim>\<open>i++\<close>), every
  other byte is appended to \<open>nocolor\<close>.
\<close>

function StripColorCodes_loop :: "font_env \<Rightarrow> u8string \<Rightarrow> nat \<Rightarrow> u8string \<Rightarrow> u8string" where
  "StripColorCodes_loop F text i nocolor =
     (if i < length text
      then (if text ! i = ColorCodeIndicator F
            then StripColorCodes_loop F text ((i + 3) + 1) nocolor
            else StripColorCodes_loop F text (i + 1) (nocolor @ [text ! i]))
      else nocolor)"
  by pat_completeness auto
termination
  by (relation "measure (\<lambda>(F, text, i, nocolor). length text - i)") auto

declare StripColorCodes_loop.simps [simp del]

definition StripColorCodes :: "font_env \<Rightarrow> u8string \<Rightarrow> u8string" where
  "StripColorCodes F text = StripColorCodes_loop F text 0 []"

text \<open>
  A text made of printable characters and well-formed colour sequences, as a list of items,
  and the bytes it stands for.
\<close>

datatype markup_item = Printable char8 | ColorSeq char8 char8 char8

fun encode_item :: "font_env \<Rightarrow> markup_item \<Rightarrow> u8string" where
  "encode_item F (Printable c) = [c]"
| "encode_item F (ColorSeq r g b) = [ColorCodeIndicator F, r, g, b]"

definition encode_items :: "font_env \<Rightarrow> markup_item list \<Rightarrow> u8string" where
  "encode_items F items = concat (map (encode_item F) items)"

fun printable_chars :: "markup_item list \<Rightarrow> u8string" where
  "printable_chars [] = []"
| "printable_chars (Printable c # items) = c # printable_chars items"
| "printable_chars (ColorSeq r g b # items) = printable_chars items"

fun is_printable_item :: "font_env \<Rightarrow> markup_item \<Rightarrow> bool" where
  "is_printable_item F (Printable c) = (c \<noteq> ColorCodeIndicator F)"
| "is_printable_item F (ColorSeq r g b) = True"

text \<open>The list view of the stripping loop, used to reason about it.\<close>

fun strip_list :: "font_env \<Rightarrow> u8string \<Rightarrow> u8string" where
  "strip_list F [] = []"
| "strip_list F (c # cs) =
     (if c = ColorCodeIndicator F then strip_list F (drop 3 cs) else c # strip_list F cs)"

section \<open>Counting lines\<close>

lemma SkipColorCodes_loop_ge: "idx \<le> SkipColorCodes_loop F t idx"
proof (induction F t idx rule: SkipColorCodes_loop.induct)
  case (1 F t idx)
  show ?case
  proof (cases "idx < length t \<and> t ! idx = ColorCodeIndicator F")
    case True
    with "1.IH" show ?thesis
      by (simp add: SkipColorCodes_loop.simps [of F t idx])
  next
    case False
    then show ?thesis
      by (auto simp add: SkipColorCodes_loop.simps [of F t idx])
  qed
qed

lemma SkipColorCodes_indicator:
  assumes "idx < length t" and "t ! idx = ColorCodeIndicator F"
  shows "idx < SkipColorCodes F t idx"
proof -
  have "SkipColorCodes_loop F t idx = SkipColorCodes_loop F t (idx + 4)"
    using assms by (simp add: SkipColorCodes_loop.simps [of F t idx])
  moreover have "idx + 4 \<le> SkipColorCodes_loop F t (idx + 4)"
    by (rule SkipColorCodes_loop_ge)
  ultimately show ?thesis
    using assms(1) by (simp add: SkipColorCodes_def)
qed

text \<open>
  \<^verbatim>\<open>CglFont::GetTextNumLines_\<close>. \<open>NumLines_body\<close> is the \<^verbatim>\<open>switch\<close> of one iteration:
  it returns the new \<open>pos\<close> and \<open>lines\<close>; the loop then adds the \<^verbatim>\<open>pos++\<close> of the
  \<^verbatim>\<open>for\<close> statement. The branch \<^verbatim>\<open>pos < 0\<close> after \<^verbatim>\<open>SkipColorCodes\<close> is never taken
  for an index that does not overflow, so the colour case is \<^verbatim>\<open>pos--\<close>. A carriage return
  falls through to the line feed case.
\<close>

definition NumLines_body :: "font_env \<Rightarrow> u8string \<Rightarrow> nat \<Rightarrow> nat \<Rightarrow> nat \<times> nat" where
  "NumLines_body F text pos lines =
     (let c = text ! pos in
      if c = ColorCodeIndicator F then (SkipColorCodes F text pos - 1, lines)
      else if c = ColorResetIndicator F then (pos, lines)
      else if c = 0x0d then
        (pos + (if pos + 1 < length text \<and> text ! (pos + 1) = 0x0a then 1 else 0), lines + 1)
      else if c = 0x0a then (pos, lines + 1)
      else (pos, lines))"

lemma NumLines_body_pos: "pos < length t \<Longrightarrow> pos \<le> fst (NumLines_body F t pos n)"
  using SkipColorCodes_indicator [of pos t F] by (auto simp add: NumLines_body_def Let_def)

function GetTextNumLines_loop :: "font_env \<Rightarrow> u8string \<Rightarrow> nat \<Rightarrow> nat \<Rightarrow> nat" where
  "GetTextNumLines_loop F text pos lines =
     (if pos < length text
      then GetTextNumLines_loop F text (fst (NumLines_body F text pos lines) + 1)
             (snd (NumLines_body F text pos lines))
      else lines)"
  by pat_completeness auto
termination
proof (relation "measure (\<lambda>(F, t, pos, n). length t - pos)")
  show "wf (measure (\<lambda>(F, t, pos, n). length t - pos))" by simp
next
  fix F :: font_env and t :: u8string and pos n :: nat
  assume "pos < length t"
  then show "((F, t, fst (NumLines_body F t pos n) + 1, snd (NumLines_body F t pos n)),
              (F, t, pos, n)) \<in> measure (\<lambda>(F, t, pos, n). length t - pos)"
    using NumLines_body_pos [of pos t F n] by simp
qed

declare GetTextNumLines_loop.simps [simp del]

definition GetTextNumLines :: "font_env \<Rightarrow> u8string \<Rightarrow> nat" where
  "GetTextNumLines F text = (if text = [] then 0 else GetTextNumLines_loop F text 0 1)"

text \<open>
  The number of line breaks of a byte string: a carriage return, a line feed, or a carriage
  return immediately followed by a line feed each count once.
\<close>

fun count_breaks :: "u8string \<Rightarrow> nat" where
  "count_breaks [] = 0"
| "count_breaks [c] = (if c = 0x0d \<or> c = 0x0a then 1 else 0)"
| "count_breaks (c # d # cs) =
     (if c = 0x0d \<and> d = 0x0a then 1 + count_breaks cs
      else if c = 0x0d \<or> c = 0x0a then 1 + count_breaks (d # cs)
      else count_breaks (d # cs))"

section \<open>Splitting into lines\<close>

text \<open>
  \<^verbatim>\<open>CglFont::SplitIntoLines\<close>. \<open>back_append\<close> is \<^verbatim>\<open>lines.back() += s\<close> and
  \<open>back_assign\<close> is \<^verbatim>\<open>lines.back() = s\<close>; the deque \<open>lines\<close> is not empty inside the loop.
  \<open>new_line\<close> is the line break case: push an empty line, then run the \<^verbatim>\<open>for\<close> loop over
  the colour stack, from the bottom up.
\<close>

definition back_append :: "u8string list \<Rightarrow> u8string \<Rightarrow> u8string list" where
  "back_append lines s = butlast lines @ [last lines @ s]"

definition back_assign :: "u8string list \<Rightarrow> u8string \<Rightarrow> u8string list" where
  "back_assign lines s = butlast lines @ [s]"

definition new_line :: "u8string list \<Rightarrow> u8string list \<Rightarrow> u8string list" where
  "new_line lines colorCodeStack = foldl back_assign (lines @ [[]]) colorCodeStack"

function SplitIntoLines_loop ::
  "font_env \<Rightarrow> u8string \<Rightarrow> nat \<Rightarrow> u8string list \<Rightarrow> u8string list \<Rightarrow> u8string list" where
  "SplitIntoLines_loop F text pos lines colorCodeStack =
     (if pos < length text then
        (if text ! pos = ColorCodeIndicator F then
           (if pos + 3 < length text
            then SplitIntoLines_loop F text ((pos + 3) + 1)
                   (back_append lines (take 4 (drop pos text)))
                   (colorCodeStack @ [take 4 (drop pos text)])
            else SplitIntoLines_loop F text (pos + 1) lines colorCodeStack)
         else if text ! pos = ColorResetIndicator F then
           SplitIntoLines_loop F text (pos + 1) (back_append lines [text ! pos])
             (if colorCodeStack \<noteq> [] then butlast colorCodeStack else colorCodeStack)
         else if text ! pos = 0x0d then
           SplitIntoLines_loop F text
             ((pos + (if pos + 1 < length text \<and> text ! (pos + 1) = 0x0a then 1 else 0)) + 1)
             (new_line lines colorCodeStack) colorCodeStack
         else if text ! pos = 0x0a then
           SplitIntoLines_loop F text (pos + 1) (new_line lines colorCodeStack) colorCodeStack
         else SplitIntoLines_loop F text (pos + 1) (back_append lines [text ! pos]) colorCodeStack)
      else lines)"
  by pat_completeness auto
termination
  by (relation "measure (\<lambda>(F, t, pos, ls, st). length t - pos)") auto

declare SplitIntoLines_loop.simps [simp del]

definition SplitIntoLines :: "font_env \<Rightarrow> u8string \<Rightarrow> u8string list" where
  "SplitIntoLines F text = (if text = [] then [] else SplitIntoLines_loop F text 0 [[]] [])"

section \<open>The markup scanner of the render drivers\<close>

text \<open>
  \<^verbatim>\<open>SkipColorCodesAndNewLines\<close>. The out-parameters \<open>pos\<close>, \<open>color\<close>, \<open>colorChanged\<close> and
  \<open>skippedLines\<close> are returned after the function's own result. A colour code writes the
  first three components of \<open>color\<close> and keeps the fourth.
\<close>

definition set_rgb :: "float4 \<Rightarrow> char8 \<Rightarrow> char8 \<Rightarrow> char8 \<Rightarrow> float4" where
  "set_rgb color r g b =
     (real (unat r) / 255, real (unat g) / 255, real (unat b) / 255, snd (snd (snd color)))"

function SkipColorCodesAndNewLines_loop ::
  "font_env \<Rightarrow> u8string \<Rightarrow> nat \<Rightarrow> float4 \<Rightarrow> bool \<Rightarrow> nat \<Rightarrow> float4
     \<Rightarrow> bool \<times> nat \<times> float4 \<times> bool \<times> nat" where
  "SkipColorCodesAndNewLines_loop F text pos color colorChanged skippedLines colorReset =
     (if pos < length text then
        (if text ! pos = ColorCodeIndicator F then
           (if pos + 4 < length text
            then SkipColorCodesAndNewLines_loop F text (pos + 4)
                   (set_rgb color (text ! ((pos + 4) - 3)) (text ! ((pos + 4) - 2))
                      (text ! ((pos + 4) - 1)))
                   True skippedLines colorReset
            else SkipColorCodesAndNewLines_loop F text (pos + 4) color colorChanged
                   skippedLines colorReset)
         else if text ! pos = ColorResetIndicator F then
           SkipColorCodesAndNewLines_loop F text (pos + 1) colorReset True skippedLines colorReset
         else if text ! pos = 0x0d then
           SkipColorCodesAndNewLines_loop F text
             (if pos + 1 < length text \<and> text ! (pos + 1) = 0x0a then (pos + 1) + 1 else pos + 1)
             color colorChanged (skippedLines + 1) colorReset
         else if text ! pos = 0x0a then
           SkipColorCodesAndNewLines_loop F text (pos + 1) color colorChanged
             (skippedLines + 1) colorReset
         else (False, pos, color, colorChanged, skippedLines))
      else (True, pos, color, colorChanged, skippedLines))"
  by pat_completeness auto
termination
  by (relation "measure (\<lambda>(F, t, pos, c, ch, sk, r). length t - pos)") auto

declare SkipColorCodesAndNewLines_loop.simps [simp del]

definition SkipColorCodesAndNewLines ::
  "font_env \<Rightarrow> u8string \<Rightarrow> nat \<Rightarrow> float4 \<Rightarrow> float4 \<Rightarrow> bool \<times> nat \<times> float4 \<times> bool \<times> nat" where
  "SkipColorCodesAndNewLines F text pos color colorReset =
     SkipColorCodesAndNewLines_loop F text pos color False 0 colorReset"

section \<open>Text metrics\<close>

text \<open>A continuation byte of a UTF-8 sequence has the form \<open>10xxxxxx\<close>.\<close>

definition is_cont :: "char8 \<Rightarrow> bool" where
  "is_cont b = (0x80 \<le> unat b \<and> unat b < 0xC0)"

text \<open>
  Modelled from the spec: \<^verbatim>\<open>utf8::GetNextChar\<close> (declared in \<^verbatim>\<open>System/StringUtil.h\<close>)
  is not among the sources. The spec's codepoint decoder "decodes one Unicode codepoint from
  a UTF-8 byte sequence at a given offset, advancing the offset", and malformed input
  "degrades to treat as printable". \<open>GetNextChar text pos\<close> returns the code point and the
  new offset: a lead byte with its one to three continuation bytes is decoded, any other
  byte is returned as it is and the offset advances by one.
\<close>

definition GetNextChar :: "u8string \<Rightarrow> nat \<Rightarrow> nat \<times> nat" where
  "GetNextChar text pos =
     (let c = unat (text ! pos) in
      if c < 0x80 then (c, pos + 1)
      else if 0xC0 \<le> c \<and> c < 0xE0 \<and> pos + 1 < length text \<and> is_cont (text ! (pos + 1)) then
        ((c mod 0x20) * 0x40 + unat (text ! (pos + 1)) mod 0x40, pos + 2)
      else if 0xE0 \<le> c \<and> c < 0xF0 \<and> pos + 2 < length text
              \<and> is_cont (text ! (pos + 1)) \<and> is_cont (text ! (pos + 2)) then
        ((c mod 0x10) * 0x1000 + (unat (text ! (pos + 1)) mod 0x40) * 0x40
           + unat (text ! (pos + 2)) mod 0x40, pos + 3)
      else if 0xF0 \<le> c \<and> c < 0xF8 \<and> pos + 3 < length text
              \<and> is_cont (text ! (pos + 1)) \<and> is_cont (text ! (pos + 2))
              \<and> is_cont (text ! (pos + 3)) then
        ((c mod 0x08) * 0x40000 + (unat (text ! (pos + 1)) mod 0x40) * 0x1000
           + (unat (text ! (pos + 2)) mod 0x40) * 0x40 + unat (text ! (pos + 3)) mod 0x40, pos + 4)
      else (c, pos + 1))"

lemma GetNextChar_advances: "pos < snd (GetNextChar t pos)"
  by (simp add: GetNextChar_def Let_def)

lemma GetNextChar_single:
  "snd (GetNextChar t pos) = pos + 1 \<Longrightarrow> fst (GetNextChar t pos) = unat (t ! pos)"
  by (auto simp add: GetNextChar_def Let_def split: if_splits)

lemma SkipColorCodes_after_decode:
  assumes "idx < length t"
    and "fst (GetNextChar t idx) = unat (ColorCodeIndicator F)"
  shows "idx < SkipColorCodes F t (snd (GetNextChar t idx) - 1)"
proof (cases "snd (GetNextChar t idx) = idx + 1")
  case True
  with assms(2) have "t ! idx = ColorCodeIndicator F"
    using GetNextChar_single [of t idx] by (simp add: word_unat_eq_iff)
  with assms(1) True show ?thesis
    using SkipColorCodes_indicator [of idx t F] by simp
next
  case False
  with GetNextChar_advances [of idx t] have "idx + 1 \<le> snd (GetNextChar t idx) - 1"
    by simp
  also have "\<dots> \<le> SkipColorCodes_loop F t (snd (GetNextChar t idx) - 1)"
    by (rule SkipColorCodes_loop_ge)
  finally show ?thesis
    using assms(1) by (simp add: SkipColorCodes_def)
qed

text \<open>
  \<^verbatim>\<open>CglFont::GetTextWidth_\<close>. The loop state is \<open>idx\<close>, \<open>curw\<close>, \<open>maxw\<close>,
  \<open>prvGlyphIdx\<close> and whether \<open>prvGlyphPtr\<close> is not null. \<open>after_newline\<close> is the index
  after a line break: the carriage return case adds one when a line feed follows, then falls
  through to the line feed case.
\<close>

definition after_newline :: "u8string \<Rightarrow> nat \<Rightarrow> nat \<Rightarrow> nat" where
  "after_newline text u idx =
     (if u = 0x0d \<and> idx < length text \<and> text ! idx = 0x0a then idx + 1 else idx)"

lemma after_newline_ge: "idx \<le> after_newline t u idx"
  by (simp add: after_newline_def)

function GetTextWidth_loop ::
  "font_env \<Rightarrow> u8string \<Rightarrow> nat \<Rightarrow> real \<Rightarrow> real \<Rightarrow> nat \<Rightarrow> bool \<Rightarrow> real \<times> real \<times> nat \<times> bool" where
  "GetTextWidth_loop F text idx curw maxw prvGlyphIdx prvGlyphPtr =
     (if idx < length text then
        (if fst (GetNextChar text idx) = unat (ColorCodeIndicator F) then
           GetTextWidth_loop F text (SkipColorCodes F text (snd (GetNextChar text idx) - 1))
             curw maxw prvGlyphIdx prvGlyphPtr
         else if fst (GetNextChar text idx) = unat (ColorResetIndicator F) then
           GetTextWidth_loop F text (snd (GetNextChar text idx)) curw maxw prvGlyphIdx prvGlyphPtr
         else if fst (GetNextChar text idx) = 0x0d \<or> fst (GetNextChar text idx) = 0x0a then
           GetTextWidth_loop F text
             (after_newline text (fst (GetNextChar text idx)) (snd (GetNextChar text idx)))
             0
             (max (if prvGlyphPtr then curw + glyph_advance F prvGlyphIdx else curw) maxw)
             prvGlyphIdx False
         else
           GetTextWidth_loop F text (snd (GetNextChar text idx))
             (if prvGlyphPtr then curw + GetKerning F prvGlyphIdx (fst (GetNextChar text idx))
              else curw)
             maxw (fst (GetNextChar text idx)) True)
      else (curw, maxw, prvGlyphIdx, prvGlyphPtr))"
  by pat_completeness auto
termination
proof (relation "measure (\<lambda>(F, t, idx, cw, mw, pi, pp). length t - idx)", goal_cases)
  case 1
  show ?case by simp
next
  case (2 F t idx cw mw pidx pptr)
  then show ?case using SkipColorCodes_after_decode [of idx t F] by simp
next
  case (3 F t idx cw mw pidx pptr)
  then show ?case using GetNextChar_advances [of idx t] by simp
next
  case (4 F t idx cw mw pidx pptr)
  then show ?case
    using GetNextChar_advances [of idx t]
      after_newline_ge [of "snd (GetNextChar t idx)" t "fst (GetNextChar t idx)"]
    by simp
next
  case (5 F t idx cw mw pidx pptr)
  then show ?case using GetNextChar_advances [of idx t] by simp
qed

declare GetTextWidth_loop.simps [simp del]

definition GetTextWidth :: "font_env \<Rightarrow> u8string \<Rightarrow> real" where
  "GetTextWidth F text =
     (if text = [] then 0
      else (case GetTextWidth_loop F text 0 0 0 0 False of
              (curw, maxw, prvGlyphIdx, prvGlyphPtr) \<Rightarrow>
                max (if prvGlyphPtr then curw + glyph_advance F prvGlyphIdx else curw) maxw))"

text \<open>
  \<^verbatim>\<open>CglFont::GetTextHeight_\<close>, with both out-parameters given: the result is the height,
  the descender and the number of lines.
\<close>

function GetTextHeight_loop ::
  "font_env \<Rightarrow> u8string \<Rightarrow> nat \<Rightarrow> real \<Rightarrow> real \<Rightarrow> nat \<Rightarrow> real \<times> real \<times> nat" where
  "GetTextHeight_loop F text idx h d multiLine =
     (if idx < length text then
        (if fst (GetNextChar text idx) = unat (ColorCodeIndicator F) then
           GetTextHeight_loop F text (SkipColorCodes F text (snd (GetNextChar text idx) - 1))
             h d multiLine
         else if fst (GetNextChar text idx) = unat (ColorResetIndicator F) then
           GetTextHeight_loop F text (snd (GetNextChar text idx)) h d multiLine
         else if fst (GetNextChar text idx) = 0x0d \<or> fst (GetNextChar text idx) = 0x0a then
           GetTextHeight_loop F text
             (after_newline text (fst (GetNextChar text idx)) (snd (GetNextChar text idx)))
             h (GetLineHeight F + GetDescender F) (multiLine + 1)
         else
           GetTextHeight_loop F text (snd (GetNextChar text idx))
             (max h (glyph_height F (fst (GetNextChar text idx)) * (if multiLine < 2 then 1 else 0)))
             (min d (glyph_descender F (fst (GetNextChar text idx))))
             multiLine)
      else (h, d, multiLine))"
  by pat_completeness auto
termination
proof (relation "measure (\<lambda>(F, t, idx, h, d, m). length t - idx)", goal_cases)
  case 1
  show ?case by simp
next
  case (2 F t idx h d m)
  then show ?case using SkipColorCodes_after_decode [of idx t F] by simp
next
  case (3 F t idx h d m)
  then show ?case using GetNextChar_advances [of idx t] by simp
next
  case (4 F t idx h d m)
  then show ?case
    using GetNextChar_advances [of idx t]
      after_newline_ge [of "snd (GetNextChar t idx)" t "fst (GetNextChar t idx)"]
    by simp
next
  case (5 F t idx h d m)
  then show ?case using GetNextChar_advances [of idx t] by simp
qed

declare GetTextHeight_loop.simps [simp del]

definition GetTextHeight :: "font_env \<Rightarrow> u8string \<Rightarrow> real \<times> real \<times> nat" where
  "GetTextHeight F text =
     (if text = [] then (0, 0, 0)
      else (case GetTextHeight_loop F text 0 0 (GetLineHeight F + GetDescender F) 1 of
              (h, d, multiLine) \<Rightarrow>
                (h,
                 d - real (multiLine - 1) * GetLineHeight F * (if multiLine > 1 then 1 else 0),
                 multiLine)))"

text \<open>
  The control tokens of the spec's markup scanner. A colour-set token stands for an indicator
  byte and the (up to) three bytes after it; the glyph token carries the decoded code point.
\<close>

datatype token = ColorSet | ColorReset | LineBreak | Glyph nat

text \<open>
  The tokens of a text, read from its bytes as the spec's scanner does: the byte at the
  cursor decides the kind of token. An indicator byte opens a colour-set sequence of four
  bytes (a shorter one at the end of the text is consumed), the reset byte is a token of its
  own, CR, LF and CR followed by LF are one line break, and any other byte starts a printable
  character, decoded by \<open>GetNextChar\<close>.
\<close>

function markup_tokens :: "font_env \<Rightarrow> u8string \<Rightarrow> token list" where
  "markup_tokens F [] = []"
| "markup_tokens F (c # cs) =
     (if c = ColorCodeIndicator F then ColorSet # markup_tokens F (drop 3 cs)
      else if c = ColorResetIndicator F then ColorReset # markup_tokens F cs
      else if c = 0x0d then
        LineBreak # markup_tokens F (if cs \<noteq> [] \<and> hd cs = 0x0a then tl cs else cs)
      else if c = 0x0a then LineBreak # markup_tokens F cs
      else Glyph (fst (GetNextChar (c # cs) 0))
             # markup_tokens F (drop (snd (GetNextChar (c # cs) 0)) (c # cs)))"
  by pat_completeness auto
termination
proof (relation "measure (\<lambda>(F, t). length t)", goal_cases)
  case 1
  show ?case by simp
next
  case (2 F c cs)
  then show ?case by simp
next
  case (3 F c cs)
  then show ?case by simp
next
  case (4 F c cs)
  then show ?case by (cases cs) simp_all
next
  case (5 F c cs)
  then show ?case by simp
next
  case (6 F c cs)
  then show ?case using GetNextChar_advances [of 0 "c # cs"] by simp
qed

declare markup_tokens.simps(2) [simp del]

text \<open>
  \<open>single_byte b\<close>: the decoder reads the byte \<open>b\<close> as a code point of its own, whatever
  follows (it is not the lead byte of a sequence of several bytes). \<open>plain_glyph\<close>: a
  printable code point does not have the value of an indicator byte or of a line break.
\<close>

definition single_byte :: "char8 \<Rightarrow> bool" where
  "single_byte b = (unat b < 0xC0 \<or> 0xF8 \<le> unat b)"

fun plain_glyph :: "font_env \<Rightarrow> token \<Rightarrow> bool" where
  "plain_glyph F (Glyph u) =
     (u \<noteq> unat (ColorCodeIndicator F) \<and> u \<noteq> unat (ColorResetIndicator F)
      \<and> u \<noteq> 0x0d \<and> u \<noteq> 0x0a)"
| "plain_glyph F ColorSet = True"
| "plain_glyph F ColorReset = True"
| "plain_glyph F LineBreak = True"

text \<open>
  The tokens as the loops of \<open>GetTextWidth\<close> and \<open>GetTextHeight\<close> read them, with the
  decoding, the cases and the cursor movement of these loops: they decode first and
  compare the code point, not the byte, with the indicators. This is the loops' own
  reading, used to reason about them; the tokens of a text are \<open>markup_tokens\<close>.
\<close>

function loop_tokens :: "font_env \<Rightarrow> u8string \<Rightarrow> nat \<Rightarrow> token list" where
  "loop_tokens F text idx =
     (if idx < length text then
        (if fst (GetNextChar text idx) = unat (ColorCodeIndicator F) then
           ColorSet # loop_tokens F text (SkipColorCodes F text (snd (GetNextChar text idx) - 1))
         else if fst (GetNextChar text idx) = unat (ColorResetIndicator F) then
           ColorReset # loop_tokens F text (snd (GetNextChar text idx))
         else if fst (GetNextChar text idx) = 0x0d \<or> fst (GetNextChar text idx) = 0x0a then
           LineBreak # loop_tokens F text
             (after_newline text (fst (GetNextChar text idx)) (snd (GetNextChar text idx)))
         else Glyph (fst (GetNextChar text idx)) # loop_tokens F text (snd (GetNextChar text idx)))
      else [])"
  by pat_completeness auto
termination
proof (relation "measure (\<lambda>(F, t, idx). length t - idx)", goal_cases)
  case 1
  show ?case by simp
next
  case (2 F t idx)
  then show ?case using SkipColorCodes_after_decode [of idx t F] by simp
next
  case (3 F t idx)
  then show ?case using GetNextChar_advances [of idx t] by simp
next
  case (4 F t idx)
  then show ?case
    using GetNextChar_advances [of idx t]
      after_newline_ge [of "snd (GetNextChar t idx)" t "fst (GetNextChar t idx)"]
    by simp
next
  case (5 F t idx)
  then show ?case using GetNextChar_advances [of idx t] by simp
qed

declare loop_tokens.simps [simp del]

text \<open>The printable glyphs of each line, in order; a text without a line break is one line.\<close>

fun glyph_lines :: "token list \<Rightarrow> nat list list" where
  "glyph_lines [] = [[]]"
| "glyph_lines (LineBreak # ts) = [] # glyph_lines ts"
| "glyph_lines (Glyph u # ts) = (u # hd (glyph_lines ts)) # tl (glyph_lines ts)"
| "glyph_lines (ColorSet # ts) = glyph_lines ts"
| "glyph_lines (ColorReset # ts) = glyph_lines ts"

text \<open>
  The width of a line of glyphs, in the spec's words: the sum of the glyph advances plus the
  kerning adjustments between consecutive glyphs. \<open>GetKerning l r\<close> is the cursor movement
  from \<open>l\<close> to \<open>r\<close> (the render drivers move the cursor by it alone), so the adjustment of a
  pair is what it adds to the advance of the left glyph.
\<close>

definition kerning_adjustment :: "font_env \<Rightarrow> nat \<Rightarrow> nat \<Rightarrow> real" where
  "kerning_adjustment F l r = GetKerning F l r - glyph_advance F l"

definition line_width :: "font_env \<Rightarrow> nat list \<Rightarrow> real" where
  "line_width F gs =
     sum_list (map (glyph_advance F) gs)
       + sum_list (map (\<lambda>(l, r). kerning_adjustment F l r) (zip gs (tl gs)))"

text \<open>
  The descender in the spec's words: the least descender of all printable glyphs of the text,
  less one line height for every line after the first.
\<close>

definition spec_descender :: "font_env \<Rightarrow> u8string \<Rightarrow> real" where
  "spec_descender F text =
     (let ls = glyph_lines (markup_tokens F text) in
      Min (set (map (glyph_descender F) (concat ls)))
        - (if length ls > 1 then real (length ls - 1) * GetLineHeight F else 0))"

text \<open>
  The loops over the token list, used to reason about them: \<open>widths_from\<close> is the width
  loop with the previous glyph as an option, \<open>cont_width\<close> the rest of the current line,
  \<open>desc_from\<close> the descender of the height loop.
\<close>

fun pending :: "font_env \<Rightarrow> nat option \<Rightarrow> real" where
  "pending F None = 0"
| "pending F (Some a) = glyph_advance F a"

fun kern_step :: "font_env \<Rightarrow> nat option \<Rightarrow> nat \<Rightarrow> real" where
  "kern_step F None g = 0"
| "kern_step F (Some a) g = GetKerning F a g"

fun widths_from :: "font_env \<Rightarrow> nat option \<Rightarrow> real \<Rightarrow> real \<Rightarrow> token list \<Rightarrow> real" where
  "widths_from F p curw maxw [] = max (curw + pending F p) maxw"
| "widths_from F p curw maxw (LineBreak # ts) =
     widths_from F None 0 (max (curw + pending F p) maxw) ts"
| "widths_from F p curw maxw (Glyph g # ts) =
     widths_from F (Some g) (curw + kern_step F p g) maxw ts"
| "widths_from F p curw maxw (ColorSet # ts) = widths_from F p curw maxw ts"
| "widths_from F p curw maxw (ColorReset # ts) = widths_from F p curw maxw ts"

fun cont_width :: "font_env \<Rightarrow> nat option \<Rightarrow> real \<Rightarrow> nat list \<Rightarrow> real" where
  "cont_width F p curw [] = curw + pending F p"
| "cont_width F p curw (g # gs) = cont_width F (Some g) (curw + kern_step F p g) gs"

fun desc_from :: "font_env \<Rightarrow> real \<Rightarrow> token list \<Rightarrow> real" where
  "desc_from F d [] = d"
| "desc_from F d (LineBreak # ts) = desc_from F (GetLineHeight F + GetDescender F) ts"
| "desc_from F d (Glyph g # ts) = desc_from F (min d (glyph_descender F g)) ts"
| "desc_from F d (ColorSet # ts) = desc_from F d ts"
| "desc_from F d (ColorReset # ts) = desc_from F d ts"

section \<open>Colours and the outline contrast selector\<close>

definition white :: float4 where
  "white = (1.00, 1.00, 1.00, 0.95)"

definition darkOutline :: float4 where
  "darkOutline = (0.05, 0.05, 0.05, 0.95)"

definition lightOutline :: float4 where
  "lightOutline = (0.95, 0.95, 0.95, 0.8)"

subsection \<open>Floating-point arithmetic\<close>

text \<open>
  The selector compares a quotient of two rounded sums with 5, so its result depends on the
  rounding of every operation. \<^verbatim>\<open>float\<close> and \<^verbatim>\<open>double\<close> are the IEEE-754 formats binary32
  and binary64, with 24 and 53 significant bits, rounded to nearest, ties to even:
  \<open>rn p x\<close> is the number with \<open>p\<close> significant bits nearest to \<open>x\<close>. The exponent is not
  bounded, so overflow, subnormal numbers, infinities and NaN are not modelled; none occurs
  in the values computed below.
\<close>

definition round_even :: "real \<Rightarrow> int" where
  "round_even y =
     (let f = \<lfloor>y\<rfloor> in
      if y - of_int f < 1 / 2 then f
      else if 1 / 2 < y - of_int f then f + 1
      else if even f then f else f + 1)"

definition rn :: "nat \<Rightarrow> real \<Rightarrow> real" where
  "rn p x =
     (if x = 0 then 0
      else (let s = 2 powi (\<lfloor>log 2 \<bar>x\<bar>\<rfloor> - int p + 1)
            in of_int (round_even (x / s)) * s))"

text \<open>
  Every operator of the source rounds once, to the type C++ gives it. In
  \<^verbatim>\<open>0.05 + 0.2126f * std::pow(c[0], 2.2) + ...\<close> the literal \<^verbatim>\<open>0.2126f\<close> is a \<^verbatim>\<open>float\<close>,
  \<^verbatim>\<open>0.05\<close> and \<^verbatim>\<open>2.2\<close> are \<^verbatim>\<open>double\<close>s, \<^verbatim>\<open>std::pow(float, double)\<close> is the \<^verbatim>\<open>double\<close>
  power, and the products and the sums, taken from left to right, are \<^verbatim>\<open>double\<close>
  operations; the quotient of two \<^verbatim>\<open>float\<close>s is a \<^verbatim>\<open>float\<close> operation. \<^verbatim>\<open>std::pow\<close> is
  taken to return the \<^verbatim>\<open>double\<close> nearest to the real power.
\<close>

definition to_float :: "real \<Rightarrow> real" where
  "to_float x = rn 24 x"

definition to_double :: "real \<Rightarrow> real" where
  "to_double x = rn 53 x"

definition add_double :: "real \<Rightarrow> real \<Rightarrow> real" where
  "add_double a b = to_double (a + b)"

definition mul_double :: "real \<Rightarrow> real \<Rightarrow> real" where
  "mul_double a b = to_double (a * b)"

definition pow_double :: "real \<Rightarrow> real \<Rightarrow> real" where
  "pow_double x y = to_double (x powr y)"

definition div_float :: "real \<Rightarrow> real \<Rightarrow> real" where
  "div_float a b = to_float (a / b)"

subsection \<open>The selector\<close>

text \<open>
  \<^verbatim>\<open>darkLuminosity\<close> and \<^verbatim>\<open>CglFont::ChooseOutlineColor\<close>. A component of a \<^verbatim>\<open>float4\<close> is
  written as the real number its literal denotes; the number stored, which the arithmetic
  reads, is the \<^verbatim>\<open>float\<close> nearest to it. The sum is rounded to \<^verbatim>\<open>float\<close> when it initialises
  the \<^verbatim>\<open>const float\<close>. The function returns the colour its result points to.
\<close>

definition darkLuminosity :: real where
  "darkLuminosity =
     (case darkOutline of (c0, c1, c2, c3) \<Rightarrow>
        to_float
          (add_double
            (add_double
              (add_double (to_double 0.05)
                (mul_double (to_float 0.2126) (pow_double (to_float c0) (to_double 2.2))))
              (mul_double (to_float 0.7152) (pow_double (to_float c1) (to_double 2.2))))
            (mul_double (to_float 0.0722) (pow_double (to_float c2) (to_double 2.2)))))"

definition ChooseOutlineColor :: "float4 \<Rightarrow> float4" where
  "ChooseOutlineColor textColor =
     (case textColor of (c0, c1, c2, c3) \<Rightarrow>
        (let luminosity =
               to_float
                 (add_double
                   (add_double
                     (add_double (to_double 0.05)
                       (mul_double (to_float 0.2126)
                          (pow_double (to_float c0) (to_double 2.2))))
                     (mul_double (to_float 0.7152)
                        (pow_double (to_float c1) (to_double 2.2))))
                   (mul_double (to_float 0.0722)
                      (pow_double (to_float c2) (to_double 2.2))));
             maxLum = max luminosity darkLuminosity;
             minLum = min luminosity darkLuminosity
         in if div_float maxLum minLum > to_float 5.0 then darkOutline else lightOutline))"

text \<open>
  The relative luminance of a colour in the spec's words, in exact arithmetic, and the same
  sum with the rounding of the machine.
\<close>

fun relative_luminance :: "float4 \<Rightarrow> real" where
  "relative_luminance (r, g, b, a) =
     0.05 + 0.2126 * r powr 2.2 + 0.7152 * g powr 2.2 + 0.0722 * b powr 2.2"

fun float_luminance :: "float4 \<Rightarrow> real" where
  "float_luminance (r, g, b, a) =
     to_float
       (add_double
         (add_double
           (add_double (to_double 0.05)
             (mul_double (to_float 0.2126) (pow_double (to_float r) (to_double 2.2))))
           (mul_double (to_float 0.7152) (pow_double (to_float g) (to_double 2.2))))
         (mul_double (to_float 0.0722) (pow_double (to_float b) (to_double 2.2))))"

section \<open>The batch accumulator\<close>

text \<open>
  Modelled from the spec: \<^verbatim>\<open>CVertexArray\<close> (\<^verbatim>\<open>Rendering/GL/VertexArray.h\<close>) is not among
  the sources. The spec's vertex collection is growable, a strip boundary "is the vertex
  count in the accumulator at the moment it was opened", and the collection is "still empty"
  when it holds 0 vertices. \<open>vertices\<close> are the vertices appended by \<^verbatim>\<open>AddVertexQ2dT\<close>,
  \<open>strips\<close> the boundaries recorded by \<^verbatim>\<open>EndStrip\<close>, \<open>Initialize\<close> empties both, and
  \<open>drawIndex\<close> is 0 exactly when no vertex is stored.
\<close>

record CVertexArray =
  vertices :: "float4 list"
  strips :: "nat list"

definition Initialize :: "CVertexArray \<Rightarrow> CVertexArray" where
  "Initialize a = a\<lparr>vertices := [], strips := []\<rparr>"

definition drawIndex :: "CVertexArray \<Rightarrow> nat" where
  "drawIndex a = length (vertices a)"

definition EndStrip :: "CVertexArray \<Rightarrow> CVertexArray" where
  "EndStrip a = a\<lparr>strips := strips a @ [drawIndex a]\<rparr>"

definition AddVertexQ2dT :: "CVertexArray \<Rightarrow> float4 \<Rightarrow> CVertexArray" where
  "AddVertexQ2dT a v = a\<lparr>vertices := vertices a @ [v]\<rparr>"

text \<open>
  The calls into the graphics API and the atlas, in the order they are issued. A draw of a
  vertex array is either uniform or advances through a strip colour sequence.
\<close>

datatype gl_call =
    PushAttrib | PopAttrib | DisableLighting | DisableDepthTest | EnableBlend | BlendFunc
  | UpdateTexture | EnableTexture2D | BindTexture | PushTextureMatrix | PopTextureMatrix
  | Color4fv float4
  | DrawArray2dT CVertexArray
  | DrawArray2dT_strips CVertexArray "float4 list"

text \<open>
  The fields of \<^verbatim>\<open>CglFont\<close> that the session functions use. \<open>vaMutex\<close> is how often the
  calling thread holds the recursive mutex, \<open>gl\<close> the graphics calls issued so far and
  \<open>errors\<close> the messages logged at error level.
\<close>

record CglFont =
  inBeginEnd :: bool
  autoOutlineColor :: bool
  setColor :: bool
  textColor :: float4
  outlineColor :: float4
  va :: CVertexArray
  va2 :: CVertexArray
  stripTextColors :: "float4 list"
  stripOutlineColors :: "float4 list"
  threadSafety :: bool
  vaMutex :: nat
  gl :: "gl_call list"
  errors :: "string list"

definition lock :: "CglFont \<Rightarrow> CglFont" where
  "lock s = (if threadSafety s then s\<lparr>vaMutex := vaMutex s + 1\<rparr> else s)"

definition unlock :: "CglFont \<Rightarrow> CglFont" where
  "unlock s = (if threadSafety s then s\<lparr>vaMutex := vaMutex s - 1\<rparr> else s)"

text \<open>
  \<^verbatim>\<open>CglFont::SetTextColor\<close> and \<^verbatim>\<open>CglFont::SetOutlineColor\<close>; a null pointer is \<open>None\<close>.
  \<^verbatim>\<open>stripTextColors.back() = *color\<close> replaces the last element. The comparison
  \<^verbatim>\<open>*color == textColor\<close> of \<^verbatim>\<open>float4\<close> (not among the sources) is equality of the four
  components.
\<close>

definition SetTextColor :: "float4 option \<Rightarrow> CglFont \<Rightarrow> CglFont" where
  "SetTextColor color s =
     (let c = (case color of None \<Rightarrow> white | Some c \<Rightarrow> c);
          s1 = lock s;
          s2 = (if inBeginEnd s1 \<and> \<not> (c = textColor s1) then
                  (if drawIndex (va s1) = 0 \<and> stripTextColors s1 \<noteq> []
                   then s1\<lparr>stripTextColors := butlast (stripTextColors s1) @ [c]\<rparr>
                   else s1\<lparr>stripTextColors := stripTextColors s1 @ [c],
                           va := EndStrip (va s1)\<rparr>)
                else s1);
          s3 = s2\<lparr>textColor := c\<rparr>
      in unlock s3)"

definition SetOutlineColor :: "float4 option \<Rightarrow> CglFont \<Rightarrow> CglFont" where
  "SetOutlineColor color s =
     (let c = (case color of None \<Rightarrow> ChooseOutlineColor (textColor s) | Some c \<Rightarrow> c);
          s1 = lock s;
          s2 = (if inBeginEnd s1 \<and> \<not> (c = outlineColor s1) then
                  (if drawIndex (va2 s1) = 0 \<and> stripOutlineColors s1 \<noteq> []
                   then s1\<lparr>stripOutlineColors := butlast (stripOutlineColors s1) @ [c]\<rparr>
                   else s1\<lparr>stripOutlineColors := stripOutlineColors s1 @ [c],
                           va2 := EndStrip (va2 s1)\<rparr>)
                else s1);
          s3 = s2\<lparr>outlineColor := c\<rparr>
      in unlock s3)"

definition SetColors :: "float4 option \<Rightarrow> float4 option \<Rightarrow> CglFont \<Rightarrow> CglFont" where
  "SetColors tc oc s = SetOutlineColor oc (SetTextColor tc s)"

text \<open>
  \<^verbatim>\<open>CglFont::Begin\<close>. \<^verbatim>\<open>SetColors()\<close> is the call with both default arguments, two null
  pointers. The mutex taken at the start stays held until \<^verbatim>\<open>End\<close>.
\<close>

definition Begin :: "bool \<Rightarrow> bool \<Rightarrow> CglFont \<Rightarrow> CglFont" where
  "Begin immediate resetColors s =
     (let s1 = lock s in
      if inBeginEnd s1 then
        unlock (s1\<lparr>errors := errors s1 @ [''called Begin() multiple times'']\<rparr>)
      else
        (let s2 = s1\<lparr>autoOutlineColor := True, setColor := \<not> immediate\<rparr>;
             s3 = (if resetColors then SetColors None None s2 else s2);
             s4 = s3\<lparr>inBeginEnd := True\<rparr>;
             s5 = s4\<lparr>va := Initialize (va s4), va2 := Initialize (va2 s4)\<rparr>;
             s6 = s5\<lparr>stripTextColors := [textColor s5],
                     stripOutlineColors := [outlineColor s5]\<rparr>
         in s6\<lparr>gl := gl s6 @ [PushAttrib, DisableLighting, DisableDepthTest, EnableBlend,
                                BlendFunc]\<rparr>))"

text \<open>
  \<^verbatim>\<open>CglFont::End\<close>. \<open>inListCompile\<close> is what \<^verbatim>\<open>glGetBooleanv(GL_LIST_INDEX, ...)\<close> reports.
\<close>

definition End :: "bool \<Rightarrow> CglFont \<Rightarrow> CglFont" where
  "End inListCompile s =
     (if \<not> inBeginEnd s then
        s\<lparr>errors := errors s @ [''called End() without Begin()'']\<rparr>
      else
        (let s1 = s\<lparr>inBeginEnd := False\<rparr> in
         if drawIndex (va s1) = 0 then unlock (s1\<lparr>gl := gl s1 @ [PopAttrib]\<rparr>)
         else
           (let calls =
                  (if \<not> inListCompile then [UpdateTexture] else [])
                  @ [EnableTexture2D, BindTexture, PushTextureMatrix]
                  @ (if drawIndex (va2 s1) > 0 then
                       (if length (stripOutlineColors s1) > 1
                        then [DrawArray2dT_strips (va2 s1) (stripOutlineColors s1)]
                        else [Color4fv (outlineColor s1), DrawArray2dT (va2 s1)])
                     else [])
                  @ (if length (stripTextColors s1) > 1
                     then [DrawArray2dT_strips (va s1) (stripTextColors s1)]
                     else (if setColor s1 then [Color4fv (textColor s1)] else [])
                            @ [DrawArray2dT (va s1)])
                  @ [PopTextureMatrix, PopAttrib]
            in unlock (s1\<lparr>gl := gl s1 @ calls\<rparr>))))"

text \<open>Appending one vertex to the primary or to the outline collection, as the render
  drivers do between \<open>Begin\<close> and \<open>End\<close>.\<close>

definition add_vertex :: "float4 \<Rightarrow> CglFont \<Rightarrow> CglFont" where
  "add_vertex v s = s\<lparr>va := AddVertexQ2dT (va s) v\<rparr>"

definition add_vertex2 :: "float4 \<Rightarrow> CglFont \<Rightarrow> CglFont" where
  "add_vertex2 v s = s\<lparr>va2 := AddVertexQ2dT (va2 s) v\<rparr>"

text \<open>
  The invariant of the strip sequences during a session: each sequence is not empty, ends
  with the current colour of its role, has no two equal neighbours, and has a single
  strip while its vertex collection is empty.
\<close>

definition strips_inv :: "CglFont \<Rightarrow> bool" where
  "strips_inv s =
     (inBeginEnd s \<longrightarrow>
        stripTextColors s \<noteq> [] \<and> last (stripTextColors s) = textColor s
        \<and> distinct_adj (stripTextColors s)
        \<and> (drawIndex (va s) = 0 \<longrightarrow> length (stripTextColors s) = 1)
        \<and> stripOutlineColors s \<noteq> [] \<and> last (stripOutlineColors s) = outlineColor s
        \<and> distinct_adj (stripOutlineColors s)
        \<and> (drawIndex (va2 s) = 0 \<longrightarrow> length (stripOutlineColors s) = 1))"

text \<open>
  The states of a font object: after construction no session is active, and the session
  bracket, the colour setters and the vertex appends of the render drivers lead from one
  state to the next.
\<close>

inductive session_reachable :: "CglFont \<Rightarrow> bool" where
  idle: "\<not> inBeginEnd s \<Longrightarrow> session_reachable s"
| begin_session: "session_reachable s \<Longrightarrow> session_reachable (Begin immediate resetColors s)"
| end_session: "session_reachable s \<Longrightarrow> session_reachable (End inListCompile s)"
| text_color: "session_reachable s \<Longrightarrow> session_reachable (SetTextColor color s)"
| outline_color: "session_reachable s \<Longrightarrow> session_reachable (SetOutlineColor color s)"
| vertex: "session_reachable s \<Longrightarrow> session_reachable (add_vertex v s)"
| vertex2: "session_reachable s \<Longrightarrow> session_reachable (add_vertex2 v s)"

text \<open>A session state for concrete evaluations: no session is active.\<close>

definition idle_font :: CglFont where
  "idle_font =
     \<lparr> inBeginEnd = False, autoOutlineColor = True, setColor = False,
       textColor = white, outlineColor = darkOutline,
       va = \<lparr>vertices = [], strips = []\<rparr>, va2 = \<lparr>vertices = [], strips = []\<rparr>,
       stripTextColors = [], stripOutlineColors = [],
       threadSafety = True, vaMutex = 0, gl = [], errors = [] \<rparr>"

text \<open>Two session states for concrete evaluations: a session that has just begun, and the
  same session after one vertex was appended to the primary collection.\<close>

definition empty_session :: CglFont where
  "empty_session = Begin False False idle_font"

definition drawn_session :: CglFont where
  "drawn_session = add_vertex (0, 0, 0, 0) empty_session"

text \<open>A face in which the glyph of U+00FF is wider and deeper than the other glyphs.\<close>

definition accent_font :: font_env where
  "accent_font =
     \<lparr> ColorCodeIndicator = 0xFF, ColorResetIndicator = 0x08,
       glyph_advance = (\<lambda>u. if u = 0xFF then 9 else 8),
       glyph_descender = (\<lambda>u. if u = 0xFF then - 3 else 0),
       glyph_height = (\<lambda>u. 8),
       GetKerning = (\<lambda>l r. if l = 0xFF then 9 else 8),
       GetLineHeight = 16, GetDescender = - 4 \<rparr>"

text \<open>The session after one vertex was appended to the outline collection as well.\<close>

definition outlined_session :: CglFont where
  "outlined_session = add_vertex2 (0, 0, 0, 0) drawn_session"

text \<open>A face for concrete evaluations: the engine's indicator bytes and a small glyph table.\<close>

definition demo_font :: font_env where
  "demo_font =
     \<lparr> ColorCodeIndicator = 0xFF, ColorResetIndicator = 0x08,
       glyph_advance = (\<lambda>u. if u = 0x69 then 4 else 8),
       glyph_descender = (\<lambda>u. if u = 0x67 then - 3 else 0),
       glyph_height = (\<lambda>u. if u = 0x41 then 12 else 8),
       GetKerning = (\<lambda>l r. (if l = 0x69 then 4 else 8) + (if l = 0x41 \<and> r = 0x56 then - 1 else 0)),
       GetLineHeight = 16, GetDescender = - 4 \<rparr>"

section \<open>Stripping colour codes\<close>

lemma StripColorCodes_loop_list:
  "StripColorCodes_loop F t i nocolor = nocolor @ strip_list F (drop i t)"
proof (induction F t i nocolor rule: StripColorCodes_loop.induct)
  case (1 F t i nocolor)
  show ?case
  proof (cases "i < length t")
    case False
    then show ?thesis
      by (simp add: StripColorCodes_loop.simps [of F t i nocolor])
  next
    case True
    then have d: "drop i t = t ! i # drop (Suc i) t"
      by (simp add: Cons_nth_drop_Suc)
    show ?thesis
    proof (cases "t ! i = ColorCodeIndicator F")
      case True
      with \<open>i < length t\<close> "1.IH"(1) d show ?thesis
        by (simp add: StripColorCodes_loop.simps [of F t i nocolor] add.commute)
    next
      case False
      with \<open>i < length t\<close> "1.IH"(2) d show ?thesis
        by (simp add: StripColorCodes_loop.simps [of F t i nocolor])
    qed
  qed
qed

lemma StripColorCodes_list: "StripColorCodes F text = strip_list F text"
  by (simp add: StripColorCodes_def StripColorCodes_loop_list)

lemma strip_list_encode:
  "list_all (is_printable_item F) items \<Longrightarrow>
   strip_list F (encode_items F items) = printable_chars items"
proof (induction items)
  case Nil
  then show ?case by (simp add: encode_items_def)
next
  case (Cons it items)
  then show ?case
    by (cases it) (simp_all add: encode_items_def)
qed

lemma strip_list_no_indicator: "ColorCodeIndicator F \<notin> set (strip_list F cs)"
proof (induction F cs rule: strip_list.induct)
  case (1 F)
  then show ?case by simp
next
  case (2 F c cs)
  then show ?case by simp
qed

lemma strip_list_id: "ColorCodeIndicator F \<notin> set cs \<Longrightarrow> strip_list F cs = cs"
  by (induction cs) auto

text \<open>
  C9. For a text of printable characters (bytes other than the colour indicator) and
  well-formed four-byte colour sequences, \<open>StripColorCodes\<close> returns exactly the printable
  characters in their order, and stripping the result again returns it unchanged.
\<close>

theorem StripColorCodes_printables_idempotent:
  assumes "list_all (is_printable_item F) items"
  shows "StripColorCodes F (encode_items F items) = printable_chars items
       \<and> StripColorCodes F (StripColorCodes F (encode_items F items))
           = StripColorCodes F (encode_items F items)"
proof -
  have a: "StripColorCodes F (encode_items F items) = printable_chars items"
    using assms by (simp add: StripColorCodes_list strip_list_encode)
  have b: "StripColorCodes F (StripColorCodes F (encode_items F items))
           = StripColorCodes F (encode_items F items)"
    by (simp add: StripColorCodes_list strip_list_id strip_list_no_indicator)
  from a b show ?thesis by simp
qed


theorem StripColorCodes_printables_idempotent_witness:
  "list_all (is_printable_item demo_font) [Printable 0x41, ColorSeq 255 0 0, Printable 0x42]
   \<and> StripColorCodes demo_font [0x41, 0xFF, 255, 0, 0, 0x42] = [0x41, 0x42]
   \<and> StripColorCodes demo_font (StripColorCodes demo_font [0x41, 0xFF, 255, 0, 0, 0x42])
       = StripColorCodes demo_font [0x41, 0xFF, 255, 0, 0, 0x42]"
proof -
  have h: "list_all (is_printable_item demo_font) [Printable 0x41, ColorSeq 255 0 0, Printable 0x42]"
    by (simp add: demo_font_def)
  have e: "encode_items demo_font [Printable 0x41, ColorSeq 255 0 0, Printable 0x42]
           = [0x41, 0xFF, 255, 0, 0, 0x42]"
    by (simp add: encode_items_def demo_font_def)
  note r = StripColorCodes_printables_idempotent [OF h, unfolded e]
  from r have a: "StripColorCodes demo_font [0x41, 0xFF, 255, 0, 0, 0x42] = [0x41, 0x42]"
    by simp
  from r have b: "StripColorCodes demo_font (StripColorCodes demo_font [0x41, 0xFF, 255, 0, 0, 0x42])
       = StripColorCodes demo_font [0x41, 0xFF, 255, 0, 0, 0x42]"
    by (rule conjunct2)
  from h a b show ?thesis by (intro conjI)
qed

section \<open>Line count of a text without control sequences\<close>

lemma count_breaks_Cons:
  "count_breaks (c # cs) =
     (if c = 0x0d \<and> cs \<noteq> [] \<and> hd cs = 0x0a then 1 + count_breaks (tl cs)
      else if c = 0x0d \<or> c = 0x0a then 1 + count_breaks cs
      else count_breaks cs)"
  by (cases cs) auto

lemma GetTextNumLines_loop_breaks:
  assumes "ColorCodeIndicator F \<notin> set t" and "ColorResetIndicator F \<notin> set t"
  shows "GetTextNumLines_loop F t pos n = n + count_breaks (drop pos t)"
  using assms
proof (induction F t pos n rule: GetTextNumLines_loop.induct)
  case (1 F t pos n)
  show ?case
  proof (cases "pos < length t")
    case False
    then show ?thesis
      by (simp add: GetTextNumLines_loop.simps [of F t pos n])
  next
    case True
    have d: "drop pos t = t ! pos # drop (Suc pos) t"
      using True by (simp add: Cons_nth_drop_Suc)
    have nc: "t ! pos \<noteq> ColorCodeIndicator F" "t ! pos \<noteq> ColorResetIndicator F"
      using True "1.prems" nth_mem [of pos t] by metis+
    have ih: "GetTextNumLines_loop F t (fst (NumLines_body F t pos n) + 1) (snd (NumLines_body F t pos n))
              = snd (NumLines_body F t pos n) + count_breaks (drop (fst (NumLines_body F t pos n) + 1) t)"
      using "1.IH" [OF True] "1.prems" by simp
    have step: "GetTextNumLines_loop F t pos n
         = GetTextNumLines_loop F t (fst (NumLines_body F t pos n) + 1) (snd (NumLines_body F t pos n))"
      using True by (simp add: GetTextNumLines_loop.simps [of F t pos n])
    show ?thesis
    proof (cases "t ! pos = 0x0d \<and> pos + 1 < length t \<and> t ! (pos + 1) = 0x0a")
      case True
      then have d2: "drop (Suc pos) t = t ! (pos + 1) # drop (Suc (Suc pos)) t"
        using Cons_nth_drop_Suc [of "Suc pos" t] by simp
      from True nc have b: "NumLines_body F t pos n = (pos + 1, n + 1)"
        by (simp add: NumLines_body_def)
      show ?thesis
        using True ih by (simp add: step b d d2)
    next
      case False
      then have b: "NumLines_body F t pos n = (pos, if t ! pos = 0x0d \<or> t ! pos = 0x0a then n + 1 else n)"
        using nc by (auto simp add: NumLines_body_def)
      have "drop (Suc pos) t \<noteq> [] \<Longrightarrow> hd (drop (Suc pos) t) = t ! (pos + 1)"
        by (simp add: hd_drop_conv_nth)
      with False have "\<not> (t ! pos = 0x0d \<and> drop (Suc pos) t \<noteq> [] \<and> hd (drop (Suc pos) t) = 0x0a)"
        by auto
      then show ?thesis
        using ih by (auto simp add: step b d count_breaks_Cons)
    qed
  qed
qed

text \<open>
  C8. For a text with no control sequence (neither indicator byte occurs), the line count is
  0 for the empty text and otherwise 1 plus the number of line breaks, where CR, LF and
  CR immediately followed by LF each count as one break.
\<close>

theorem GetTextNumLines_counts_breaks:
  assumes "ColorCodeIndicator F \<notin> set text" and "ColorResetIndicator F \<notin> set text"
  shows "GetTextNumLines F text = (if text = [] then 0 else 1 + count_breaks text)"
  using assms by (simp add: GetTextNumLines_def GetTextNumLines_loop_breaks)

theorem GetTextNumLines_counts_breaks_witness:
  "ColorCodeIndicator demo_font \<notin> set [0x41, 0x0d, 0x0a, 0x42, 0x0a, 0x0d, 0x43]
   \<and> ColorResetIndicator demo_font \<notin> set [0x41, 0x0d, 0x0a, 0x42, 0x0a, 0x0d, 0x43]
   \<and> GetTextNumLines demo_font [0x41, 0x0d, 0x0a, 0x42, 0x0a, 0x0d, 0x43] = 4"
proof -
  have a: "ColorCodeIndicator demo_font \<notin> set [0x41, 0x0d, 0x0a, 0x42, 0x0a, 0x0d, 0x43]"
    by (simp add: demo_font_def)
  have b: "ColorResetIndicator demo_font \<notin> set [0x41, 0x0d, 0x0a, 0x42, 0x0a, 0x0d, 0x43]"
    by (simp add: demo_font_def)
  show ?thesis
    using a b GetTextNumLines_counts_breaks [OF a b] by simp
qed

section \<open>Colour codes carried over a line break\<close>

text \<open>The line break case keeps the topmost entry of the colour stack only.\<close>

lemma new_line_top:
  "new_line lines colorCodeStack
     = lines @ [if colorCodeStack = [] then [] else last colorCodeStack]"
proof (induction colorCodeStack rule: rev_induct)
  case Nil
  then show ?case by (simp add: new_line_def)
next
  case (snoc c st)
  then show ?case by (simp add: new_line_def back_assign_def)
qed

text \<open>
  C1. The line break case of \<open>SplitIntoLines\<close> assigns each entry of the colour stack to
  the new line instead of appending it, so the new line starts with the topmost open
  colour code only. With two colour codes open at the break, the second line holds the
  second code and the character after the break; the first code is not carried over.
\<close>

theorem SplitIntoLines_two_open_codes:
  "SplitIntoLines demo_font [0xFF, 1, 2, 3, 0xFF, 4, 5, 6, 0x0a, 0x41]
     = [[0xFF, 1, 2, 3, 0xFF, 4, 5, 6], [0xFF, 4, 5, 6, 0x41]]"
  by code_simp

section \<open>A colour code at the end of the scanned text\<close>

text \<open>
  One step of the scanner at a colour indicator: the colour is signalled when at least one
  byte follows the three colour bytes; otherwise the scan ends with the cursor four bytes on.
\<close>

lemma SkipColorCodesAndNewLines_color_code:
  assumes "pos < length t" and "t ! pos = ColorCodeIndicator F"
  shows "SkipColorCodesAndNewLines_loop F t pos color changed skipped reset =
     (if pos + 4 < length t
      then SkipColorCodesAndNewLines_loop F t (pos + 4)
             (set_rgb color (t ! (pos + 1)) (t ! (pos + 2)) (t ! (pos + 3))) True skipped reset
      else (True, pos + 4, color, changed, skipped))"
proof (cases "pos + 4 < length t")
  case True
  with assms show ?thesis
    by (simp add: SkipColorCodesAndNewLines_loop.simps [of F t pos] add.commute)
next
  case False
  then have "SkipColorCodesAndNewLines_loop F t (pos + 4) color changed skipped reset
      = (True, pos + 4, color, changed, skipped)"
    by (simp add: SkipColorCodesAndNewLines_loop.simps [of F t "pos + 4"])
  with assms False show ?thesis
    by (simp add: SkipColorCodesAndNewLines_loop.simps [of F t pos])
qed

lemma SkipColorCodesAndNewLines_code_before_glyph:
  "SkipColorCodesAndNewLines demo_font [0xFF, 255, 0, 0, 0x41] 0 (0, 0, 0, 1) (1, 1, 1, 1)
     = (False, 4, (1, 0, 0, 1), True, 0)"
  by (simp add: SkipColorCodesAndNewLines_def SkipColorCodesAndNewLines_loop.simps
      demo_font_def set_rgb_def)

text \<open>
  C2. \<open>SkipColorCodesAndNewLines\<close> signals the colour of a colour code only when the
  cursor after the four bytes is still inside the text. For an indicator followed by
  exactly three bytes that end the text, the cursor moves to the end, the colour is left as
  it was and no change is signalled.
\<close>

theorem SkipColorCodesAndNewLines_code_at_end:
  "SkipColorCodesAndNewLines demo_font [0xFF, 255, 0, 0] 0 (0, 0, 0, 1) (1, 1, 1, 1)
     = (True, 4, (0, 0, 0, 1), False, 0)"
  by (simp add: SkipColorCodesAndNewLines_def SkipColorCodesAndNewLines_loop.simps demo_font_def)


section \<open>The loops' reading and the tokens of the text\<close>

lemma GetNextChar_single_byte:
  "single_byte (t ! pos) \<Longrightarrow> GetNextChar t pos = (unat (t ! pos), pos + 1)"
  by (auto simp add: GetNextChar_def single_byte_def Let_def)

lemma GetNextChar_drop:
  "pos < length t \<Longrightarrow>
   GetNextChar t pos
     = (fst (GetNextChar (drop pos t) 0), pos + snd (GetNextChar (drop pos t) 0))"
  by (auto simp add: GetNextChar_def Let_def add.commute less_diff_conv)


lemma glyph_lines_color_run: "glyph_lines (replicate k ColorSet @ ts) = glyph_lines ts"
  by (induction k) simp_all

lemma plain_glyph_color_run:
  "list_all (plain_glyph F) (replicate k ColorSet @ ts) = list_all (plain_glyph F) ts"
  by (induction k) simp_all

lemma markup_tokens_color_run:
  "\<exists>k. markup_tokens F (drop idx t)
        = replicate k ColorSet @ markup_tokens F (drop (SkipColorCodes_loop F t idx) t)"
proof (induction F t idx rule: SkipColorCodes_loop.induct)
  case (1 F t idx)
  show ?case
  proof (cases "idx < length t \<and> t ! idx = ColorCodeIndicator F")
    case True
    then have d: "drop idx t = ColorCodeIndicator F # drop (Suc idx) t"
      using Cons_nth_drop_Suc [of idx t] by simp
    from "1.IH" True obtain k where
      k: "markup_tokens F (drop (idx + 4) t)
            = replicate k ColorSet @ markup_tokens F (drop (SkipColorCodes_loop F t (idx + 4)) t)"
      by blast
    have "markup_tokens F (drop idx t) = ColorSet # markup_tokens F (drop (idx + 4) t)"
      by (simp add: d markup_tokens.simps(2) add.commute)
    with k True have "markup_tokens F (drop idx t)
        = replicate (Suc k) ColorSet @ markup_tokens F (drop (SkipColorCodes_loop F t idx) t)"
      by (simp add: SkipColorCodes_loop.simps [of F t idx])
    then show ?thesis by blast
  next
    case False
    then have "SkipColorCodes_loop F t idx = idx"
      by (auto simp add: SkipColorCodes_loop.simps [of F t idx])
    then have "markup_tokens F (drop idx t)
        = replicate 0 ColorSet @ markup_tokens F (drop (SkipColorCodes_loop F t idx) t)"
      by simp
    then show ?thesis by blast
  qed
qed

lemma drop_min_length: "drop (min (length t) j) t = drop j t"
  by (cases "j \<le> length t") (simp_all add: min_def)

lemma markup_tokens_SkipColorCodes:
  "\<exists>k. markup_tokens F (drop idx t)
        = replicate k ColorSet @ markup_tokens F (drop (SkipColorCodes F t idx) t)"
  using markup_tokens_color_run [of F idx t] by (simp add: SkipColorCodes_def drop_min_length)

lemma loop_tokens_markup:
  assumes "single_byte (ColorCodeIndicator F)" and "single_byte (ColorResetIndicator F)"
    and "list_all (plain_glyph F) (markup_tokens F (drop idx t))"
  shows "glyph_lines (loop_tokens F t idx) = glyph_lines (markup_tokens F (drop idx t))"
  using assms
proof (induction F t idx rule: loop_tokens.induct)
  case (1 F t idx)
  show ?case
  proof (cases "idx < length t")
    case False
    then show ?thesis
      by (simp add: loop_tokens.simps [of F t idx])
  next
    case True
    note inner = True
    have d: "drop idx t = t ! idx # drop (Suc idx) t"
      using True Cons_nth_drop_Suc [of idx t] by simp
    have sb: "single_byte (0x0d :: char8)" "single_byte (0x0a :: char8)"
      by (simp_all add: single_byte_def)
    show ?thesis
    proof (cases "t ! idx = ColorCodeIndicator F")
      case True
      with "1.prems"(1) have g: "GetNextChar t idx = (unat (ColorCodeIndicator F), idx + 1)"
        using GetNextChar_single_byte [of t idx] by simp
      obtain k where k: "markup_tokens F (drop idx t)
          = replicate k ColorSet @ markup_tokens F (drop (SkipColorCodes F t idx) t)"
        using markup_tokens_SkipColorCodes [of F idx t] by blast
      with "1.prems"(3)
      have pl: "list_all (plain_glyph F) (markup_tokens F (drop (SkipColorCodes F t idx) t))"
        by (simp add: plain_glyph_color_run)
      have "glyph_lines (loop_tokens F t (SkipColorCodes F t idx))
          = glyph_lines (markup_tokens F (drop (SkipColorCodes F t idx) t))"
        using "1.IH"(1) [OF inner] g "1.prems"(1,2) pl by simp
      then show ?thesis
        using inner g by (simp add: loop_tokens.simps [of F t idx] k glyph_lines_color_run)
    next
      case False
      note nocol = False
      show ?thesis
      proof (cases "t ! idx = ColorResetIndicator F")
        case True
        with "1.prems"(2) have g: "GetNextChar t idx = (unat (ColorResetIndicator F), idx + 1)"
          using GetNextChar_single_byte [of t idx] by simp
        from nocol True have ne: "unat (ColorResetIndicator F) \<noteq> unat (ColorCodeIndicator F)"
          by (simp add: word_unat_eq_iff)
        have m: "markup_tokens F (drop idx t) = ColorReset # markup_tokens F (drop (Suc idx) t)"
          using nocol True by (simp add: d markup_tokens.simps(2))
        with "1.prems"(3) have pl: "list_all (plain_glyph F) (markup_tokens F (drop (Suc idx) t))"
          by simp
        have "glyph_lines (loop_tokens F t (Suc idx))
            = glyph_lines (markup_tokens F (drop (Suc idx) t))"
          using "1.IH"(2) [OF inner] g ne "1.prems"(1,2) pl by simp
        then show ?thesis
          using inner g ne by (simp add: loop_tokens.simps [of F t idx] m)
      next
        case False
        note nores = False
        show ?thesis
        proof (cases "t ! idx = 0x0d \<or> t ! idx = 0x0a")
          case True
          then have g: "GetNextChar t idx = (unat (t ! idx), idx + 1)"
            using GetNextChar_single_byte [of t idx] sb by auto
          from nocol nores have ne: "unat (t ! idx) \<noteq> unat (ColorCodeIndicator F)"
            "unat (t ! idx) \<noteq> unat (ColorResetIndicator F)"
            by (simp_all add: word_unat_eq_iff)
          from True have u: "unat (t ! idx) = 0x0d \<or> unat (t ! idx) = 0x0a"
            by auto
          let ?j = "after_newline t (unat (t ! idx)) (idx + 1)"
          have m: "markup_tokens F (drop idx t) = LineBreak # markup_tokens F (drop ?j t)"
          proof (cases "t ! idx = 0x0d")
            case True
            have "(if drop (Suc idx) t \<noteq> [] \<and> hd (drop (Suc idx) t) = 0x0a
                       then tl (drop (Suc idx) t) else drop (Suc idx) t) = drop ?j t"
            proof (cases "Suc idx < length t \<and> t ! Suc idx = 0x0a")
              case True
              then have "drop (Suc idx) t = 0x0a # drop (Suc (Suc idx)) t"
                using Cons_nth_drop_Suc [of "Suc idx" t] by simp
              moreover have "?j = Suc (Suc idx)"
                using True \<open>t ! idx = 0x0d\<close> by (simp add: after_newline_def)
              ultimately show ?thesis by simp
            next
              case False
              then have j: "?j = Suc idx"
                by (auto simp add: after_newline_def)
              have "\<not> (drop (Suc idx) t \<noteq> [] \<and> hd (drop (Suc idx) t) = 0x0a)"
                using False by (auto simp add: hd_drop_conv_nth)
              with j show ?thesis by auto
            qed
            with True nocol nores show ?thesis
              by (simp add: d markup_tokens.simps(2))
          next
            case False
            with True have lf: "t ! idx = 0x0a" by simp
            then have "?j = Suc idx" by (simp add: after_newline_def)
            with lf nocol nores show ?thesis
              by (simp add: d markup_tokens.simps(2))
          qed
          with "1.prems"(3) have pl: "list_all (plain_glyph F) (markup_tokens F (drop ?j t))"
            by simp
          have "glyph_lines (loop_tokens F t ?j) = glyph_lines (markup_tokens F (drop ?j t))"
            using "1.IH"(3) [OF inner] g ne u "1.prems"(1,2) pl by simp
          then show ?thesis
            using inner g ne u by (auto simp add: loop_tokens.simps [of F t idx] m)
        next
          case False
          let ?u = "fst (GetNextChar t idx)" and ?j = "snd (GetNextChar t idx)"
          have gd: "?u = fst (GetNextChar (drop idx t) 0)"
            "?j = idx + snd (GetNextChar (drop idx t) 0)"
            using GetNextChar_drop [OF inner] by simp_all
          have "markup_tokens F (t ! idx # drop (Suc idx) t)
              = Glyph (fst (GetNextChar (t ! idx # drop (Suc idx) t) 0))
                  # markup_tokens F (drop (snd (GetNextChar (t ! idx # drop (Suc idx) t) 0))
                                       (t ! idx # drop (Suc idx) t))"
            using nocol nores False by (simp add: markup_tokens.simps(2))
          then have "markup_tokens F (drop idx t)
              = Glyph (fst (GetNextChar (drop idx t) 0))
                  # markup_tokens F (drop (snd (GetNextChar (drop idx t) 0)) (drop idx t))"
            unfolding d [symmetric] .
          then have m: "markup_tokens F (drop idx t) = Glyph ?u # markup_tokens F (drop ?j t)"
            using gd by (simp add: add.commute)
          with "1.prems"(3) have pg: "plain_glyph F (Glyph ?u)"
            and pl: "list_all (plain_glyph F) (markup_tokens F (drop ?j t))"
            by simp_all
          from pg have ne: "?u \<noteq> unat (ColorCodeIndicator F)" "?u \<noteq> unat (ColorResetIndicator F)"
            "\<not> (?u = 0x0d \<or> ?u = 0x0a)"
            by simp_all
          have "glyph_lines (loop_tokens F t ?j) = glyph_lines (markup_tokens F (drop ?j t))"
            using "1.IH"(4) [OF inner ne] "1.prems"(1,2) pl by simp
          then show ?thesis
            using inner ne by (simp add: loop_tokens.simps [of F t idx] m)
        qed
      qed
    qed
  qed
qed

section \<open>Width of a text\<close>

lemma glyph_lines_nonempty: "glyph_lines ts \<noteq> []"
  by (induction ts rule: glyph_lines.induct) simp_all

lemma GetTextWidth_loop_tokens:
  "(case GetTextWidth_loop F t idx curw maxw pidx pptr of
      (cw, mw, qi, qp) \<Rightarrow> max (if qp then cw + glyph_advance F qi else cw) mw)
   = widths_from F (if pptr then Some pidx else None) curw maxw (loop_tokens F t idx)"
proof (induction F t idx curw maxw pidx pptr rule: GetTextWidth_loop.induct)
  case (1 F t idx curw maxw pidx pptr)
  show ?case
  proof (cases "idx < length t")
    case False
    then show ?thesis
      by (simp add: GetTextWidth_loop.simps [of F t idx] loop_tokens.simps [of F t idx])
  next
    case True
    note inner = True
    show ?thesis
    proof (cases "fst (GetNextChar t idx) = unat (ColorCodeIndicator F)")
      case True
      with inner "1.IH"(1) show ?thesis
        by (simp add: GetTextWidth_loop.simps [of F t idx] loop_tokens.simps [of F t idx])
    next
      case False
      note nocol = False
      show ?thesis
      proof (cases "fst (GetNextChar t idx) = unat (ColorResetIndicator F)")
        case True
        with inner nocol "1.IH"(2) show ?thesis
          by (simp add: GetTextWidth_loop.simps [of F t idx] loop_tokens.simps [of F t idx])
      next
        case False
        note nores = False
        show ?thesis
        proof (cases "fst (GetNextChar t idx) = 0x0d \<or> fst (GetNextChar t idx) = 0x0a")
          case True
          with inner nocol nores "1.IH"(3) show ?thesis
            by (simp add: GetTextWidth_loop.simps [of F t idx] loop_tokens.simps [of F t idx])
        next
          case False
          with inner nocol nores "1.IH"(4) show ?thesis
            by (simp add: GetTextWidth_loop.simps [of F t idx] loop_tokens.simps [of F t idx])
        qed
      qed
    qed
  qed
qed

lemma cont_width_Some: "cont_width F (Some a) w gs = w + line_width F (a # gs)"
proof (induction gs arbitrary: a w)
  case Nil
  then show ?case by (simp add: line_width_def)
next
  case (Cons g gs)
  then show ?case
    by (simp add: line_width_def kerning_adjustment_def)
qed

lemma cont_width_None: "cont_width F None w gs = w + line_width F gs"
  by (cases gs) (simp_all add: cont_width_Some, simp add: line_width_def)

lemma Max_Cons2: "Max (set (x # y # xs)) = max x (Max (set (y # xs)))"
  by simp

lemma widths_from_lines:
  "widths_from F p curw maxw ts
     = Max (set (maxw # cont_width F p curw (hd (glyph_lines ts))
                  # map (line_width F) (tl (glyph_lines ts))))"
proof (induction F p curw maxw ts rule: widths_from.induct)
  case (1 F p curw maxw)
  then show ?case by (simp add: max.commute)
next
  case (2 F p curw maxw ts)
  have ne: "glyph_lines ts \<noteq> []" by (rule glyph_lines_nonempty)
  then have m: "map (line_width F) (glyph_lines ts)
        = line_width F (hd (glyph_lines ts)) # map (line_width F) (tl (glyph_lines ts))"
    by (cases "glyph_lines ts") simp_all
  show ?case
    unfolding widths_from.simps "2.IH" glyph_lines.simps list.sel m Max_Cons2
    by (simp add: cont_width_None max.assoc max.commute max.left_commute)
next
  case (3 F p curw maxw g ts)
  then show ?case by simp
next
  case (4 F p curw maxw ts)
  then show ?case by simp
next
  case (5 F p curw maxw ts)
  then show ?case by simp
qed

lemma loop_tokens_Nil: "loop_tokens F [] 0 = []"
  by (simp add: loop_tokens.simps)

lemma GetTextWidth_lines:
  "GetTextWidth F t = Max (set (0 # map (line_width F) (glyph_lines (loop_tokens F t 0))))"
proof (cases "t = []")
  case True
  then show ?thesis
    by (simp add: GetTextWidth_def loop_tokens_Nil line_width_def)
next
  case False
  have ne: "glyph_lines (loop_tokens F t 0) \<noteq> []" by (rule glyph_lines_nonempty)
  then have m: "map (line_width F) (glyph_lines (loop_tokens F t 0))
        = line_width F (hd (glyph_lines (loop_tokens F t 0)))
            # map (line_width F) (tl (glyph_lines (loop_tokens F t 0)))"
    by (cases "glyph_lines (loop_tokens F t 0)") simp_all
  have "GetTextWidth F t = widths_from F None 0 0 (loop_tokens F t 0)"
    using False GetTextWidth_loop_tokens [of F t 0 0 0 0 False]
    by (simp add: GetTextWidth_def)
  also have "\<dots> = Max (set (0 # cont_width F None 0 (hd (glyph_lines (loop_tokens F t 0)))
                  # map (line_width F) (tl (glyph_lines (loop_tokens F t 0)))))"
    by (rule widths_from_lines)
  also have "\<dots> = Max (set (0 # map (line_width F) (glyph_lines (loop_tokens F t 0))))"
    unfolding cont_width_None using m by simp
  finally show ?thesis .
qed

text \<open>
  For a text in which no printable code point has the value of an indicator byte or of a
  line break, and with indicator bytes that the decoder reads as single bytes, the width is
  the greatest line width, and at least 0: the width of a line is the sum of the advances
  of its printable glyphs plus the kerning adjustments between consecutive printable glyphs.
\<close>

lemma GetTextWidth_plain_text:
  assumes "single_byte (ColorCodeIndicator F)" and "single_byte (ColorResetIndicator F)"
    and "list_all (plain_glyph F) (markup_tokens F t)"
  shows "GetTextWidth F t
       = Max (set (0 # map (line_width F) (glyph_lines (markup_tokens F t))))"
  using loop_tokens_markup [of F 0 t] assms by (simp add: GetTextWidth_lines)

text \<open>
  C4. The width loop compares the decoded code point with the colour indicator and then
  resumes one byte before the cursor. The two bytes \<open>C3 BF\<close> are the character U+00FF, a
  printable glyph of advance 9 in this face; the loop takes it for a colour code, resumes
  at the byte \<open>BF\<close> and returns the advance 8 of the glyph \<open>0xBF\<close>.
\<close>

theorem GetTextWidth_U00FF:
  "markup_tokens accent_font [0xC3, 0xBF] = [Glyph 0xFF]
   \<and> line_width accent_font [0xFF] = 9
   \<and> loop_tokens accent_font [0xC3, 0xBF] 0 = [ColorSet, Glyph 0xBF]
   \<and> GetTextWidth accent_font [0xC3, 0xBF] = 8"
proof -
  have a: "markup_tokens accent_font [0xC3, 0xBF] = [Glyph 0xFF]" by code_simp
  have b: "line_width accent_font [0xFF] = 9" by code_simp
  have c: "loop_tokens accent_font [0xC3, 0xBF] 0 = [ColorSet, Glyph 0xBF]" by code_simp
  have d: "GetTextWidth accent_font [0xC3, 0xBF] = 8" by code_simp
  from a b c d show ?thesis by (intro conjI)
qed

section \<open>Descender of a text\<close>

lemma GetTextHeight_loop_tokens:
  "snd (GetTextHeight_loop F t idx h d m)
     = (desc_from F d (loop_tokens F t idx),
        m + (length (glyph_lines (loop_tokens F t idx)) - 1))"
proof (induction F t idx h d m rule: GetTextHeight_loop.induct)
  case (1 F t idx h d m)
  have ne: "\<And>ts. length (glyph_lines ts) \<noteq> 0"
    using glyph_lines_nonempty by simp
  show ?case
  proof (cases "idx < length t")
    case False
    then show ?thesis
      by (simp add: GetTextHeight_loop.simps [of F t idx] loop_tokens.simps [of F t idx])
  next
    case True
    note inner = True
    show ?thesis
    proof (cases "fst (GetNextChar t idx) = unat (ColorCodeIndicator F)")
      case True
      with inner "1.IH"(1) show ?thesis
        by (simp add: GetTextHeight_loop.simps [of F t idx] loop_tokens.simps [of F t idx])
    next
      case False
      note nocol = False
      show ?thesis
      proof (cases "fst (GetNextChar t idx) = unat (ColorResetIndicator F)")
        case True
        with inner nocol "1.IH"(2) show ?thesis
          by (simp add: GetTextHeight_loop.simps [of F t idx] loop_tokens.simps [of F t idx])
      next
        case False
        note nores = False
        show ?thesis
        proof (cases "fst (GetNextChar t idx) = 0x0d \<or> fst (GetNextChar t idx) = 0x0a")
          case True
          have "0 < length (glyph_lines (loop_tokens F t
                  (after_newline t (fst (GetNextChar t idx)) (snd (GetNextChar t idx)))))"
            using glyph_lines_nonempty by simp
          with True inner nocol nores "1.IH"(3) show ?thesis
            by (simp add: GetTextHeight_loop.simps [of F t idx] loop_tokens.simps [of F t idx])
        next
          case False
          with inner nocol nores "1.IH"(4) show ?thesis
            by (simp add: GetTextHeight_loop.simps [of F t idx] loop_tokens.simps [of F t idx])
        qed
      qed
    qed
  qed
qed

lemma length_glyph_lines_Glyph: "length (glyph_lines (Glyph g # ts)) = length (glyph_lines ts)"
  using glyph_lines_nonempty [of ts] by (cases "glyph_lines ts") simp_all

lemma last_glyph_lines_Glyph:
  "last (glyph_lines (Glyph g # ts))
     = (if length (glyph_lines ts) = 1 then g # last (glyph_lines ts) else last (glyph_lines ts))"
proof (cases "glyph_lines ts")
  case Nil
  then show ?thesis using glyph_lines_nonempty [of ts] by simp
next
  case (Cons l ls)
  then show ?thesis by (cases ls) simp_all
qed

lemma Min_insert_min:
  "finite S \<Longrightarrow> Min (insert (min d a) S) = min (d :: real) (Min (insert a S))"
  by (cases "S = {}") (simp_all add: min.assoc)

lemma desc_from_last_line:
  "desc_from F d ts
     = Min (set ((if length (glyph_lines ts) = 1 then d else GetLineHeight F + GetDescender F)
                  # map (glyph_descender F) (last (glyph_lines ts))))"
proof (induction F d ts rule: desc_from.induct)
  case (1 F d)
  then show ?case by simp
next
  case (2 F d ts)
  then show ?case
    using glyph_lines_nonempty [of ts] by simp
next
  case (3 F d g ts)
  show ?case
  proof (cases "length (glyph_lines ts) = 1")
    case True
    then show ?thesis
      unfolding desc_from.simps "3.IH" length_glyph_lines_Glyph last_glyph_lines_Glyph
      by (simp add: Min_insert_min)
  next
    case False
    then show ?thesis
      unfolding desc_from.simps "3.IH" length_glyph_lines_Glyph last_glyph_lines_Glyph
      by simp
  qed
next
  case (4 F d ts)
  then show ?case by simp
next
  case (5 F d ts)
  then show ?case by simp
qed

lemma GetTextHeight_last_line:
  "snd (GetTextHeight F t) =
     (if t = [] then (0, 0)
      else (Min (set ((GetLineHeight F + GetDescender F)
                        # map (glyph_descender F) (last (glyph_lines (loop_tokens F t 0)))))
              - (if length (glyph_lines (loop_tokens F t 0)) > 1
                 then real (length (glyph_lines (loop_tokens F t 0)) - 1) * GetLineHeight F
                 else 0),
            length (glyph_lines (loop_tokens F t 0))))"
proof (cases "t = []")
  case True
  then show ?thesis by (simp add: GetTextHeight_def)
next
  case False
  have pos: "0 < length (glyph_lines (loop_tokens F t 0))"
    using glyph_lines_nonempty by simp
  obtain h d m where r: "GetTextHeight_loop F t 0 0 (GetLineHeight F + GetDescender F) 1 = (h, d, m)"
    by (cases "GetTextHeight_loop F t 0 0 (GetLineHeight F + GetDescender F) 1") auto
  from GetTextHeight_loop_tokens [of F t 0 0 "GetLineHeight F + GetDescender F" 1] r
  have d: "d = desc_from F (GetLineHeight F + GetDescender F) (loop_tokens F t 0)"
    and m: "m = length (glyph_lines (loop_tokens F t 0))"
    using pos by simp_all
  from r have r': "GetTextHeight_loop F t 0 0 (GetLineHeight F + GetDescender F) (Suc 0) = (h, d, m)"
    by simp
  show ?thesis
    using False pos by (simp add: GetTextHeight_def r' d [unfolded desc_from_last_line] m)
qed

text \<open>
  C3, as the spec states it, fails: the height loop starts every line with the descender
  \<open>GetLineHeight + GetDescender\<close> again, so the glyphs of earlier lines do not count. For
  the text \<open>g\<close>, line feed, \<open>A\<close> the glyph \<open>g\<close> has the least descender, but the result
  is that of the last line.
\<close>

theorem GetTextHeight_descender_counterexample:
  "fst (snd (GetTextHeight demo_font [0x67, 0x0a, 0x41])) = - 16
   \<and> spec_descender demo_font [0x67, 0x0a, 0x41] = - 19
   \<and> fst (snd (GetTextHeight demo_font [0x67, 0x0a, 0x41]))
       \<noteq> spec_descender demo_font [0x67, 0x0a, 0x41]"
proof -
  have a: "fst (snd (GetTextHeight demo_font [0x67, 0x0a, 0x41])) = - 16"
    by code_simp
  have b: "spec_descender demo_font [0x67, 0x0a, 0x41] = - 19"
    by code_simp
  from a b show ?thesis by simp
qed

text \<open>
  C3, amended. For a non-empty text in which no printable code point has the value of an
  indicator byte or of a line break (the indicator bytes being bytes the decoder reads
  singly), the descender returned is the least of \<open>GetLineHeight + GetDescender\<close> and the
  descenders of the printable glyphs of the last line, less
  \<open>(lineCount - 1) * GetLineHeight\<close> when the text has more than one line; the line count
  returned is the number of lines. For the empty text both are 0.
\<close>

theorem GetTextHeight_descender_last_line:
  assumes "single_byte (ColorCodeIndicator F)" and "single_byte (ColorResetIndicator F)"
    and "list_all (plain_glyph F) (markup_tokens F text)"
  shows "snd (GetTextHeight F text) =
     (if text = [] then (0, 0)
      else (Min (set ((GetLineHeight F + GetDescender F)
                        # map (glyph_descender F) (last (glyph_lines (markup_tokens F text)))))
              - (if length (glyph_lines (markup_tokens F text)) > 1
                 then real (length (glyph_lines (markup_tokens F text)) - 1) * GetLineHeight F
                 else 0),
            length (glyph_lines (markup_tokens F text))))"
  using loop_tokens_markup [of F 0 "text"] assms by (simp add: GetTextHeight_last_line)

theorem GetTextHeight_descender_last_line_witness:
  "single_byte (ColorCodeIndicator demo_font) \<and> single_byte (ColorResetIndicator demo_font)
   \<and> list_all (plain_glyph demo_font)
        (markup_tokens demo_font [0x67, 0x0d, 0x0a, 0xFF, 1, 2, 3, 0xC3, 0xA9, 0x41])
   \<and> markup_tokens demo_font [0x67, 0x0d, 0x0a, 0xFF, 1, 2, 3, 0xC3, 0xA9, 0x41]
       = [Glyph 0x67, LineBreak, ColorSet, Glyph 0xE9, Glyph 0x41]
   \<and> snd (GetTextHeight demo_font [0x67, 0x0d, 0x0a, 0xFF, 1, 2, 3, 0xC3, 0xA9, 0x41])
       = (- 16, 2)"
proof -
  let ?t = "[0x67, 0x0d, 0x0a, 0xFF, 1, 2, 3, 0xC3, 0xA9, 0x41] :: u8string"
  have h1: "single_byte (ColorCodeIndicator demo_font)"
    and h2: "single_byte (ColorResetIndicator demo_font)"
    by (simp_all add: single_byte_def demo_font_def)
  have m: "markup_tokens demo_font ?t = [Glyph 0x67, LineBreak, ColorSet, Glyph 0xE9, Glyph 0x41]"
    by code_simp
  have h3: "list_all (plain_glyph demo_font) (markup_tokens demo_font ?t)"
    unfolding m by (simp add: demo_font_def)
  have v: "(if ?t = [] then (0, 0)
      else (Min (set ((GetLineHeight demo_font + GetDescender demo_font)
                        # map (glyph_descender demo_font)
                            (last (glyph_lines (markup_tokens demo_font ?t)))))
              - (if length (glyph_lines (markup_tokens demo_font ?t)) > 1
                 then real (length (glyph_lines (markup_tokens demo_font ?t)) - 1)
                        * GetLineHeight demo_font
                 else 0),
            length (glyph_lines (markup_tokens demo_font ?t)))) = (- 16, 2)"
    unfolding m by (simp add: demo_font_def)
  have r: "snd (GetTextHeight demo_font ?t) = (- 16, 2)"
    unfolding GetTextHeight_descender_last_line [OF h1 h2 h3] by (rule v)
  from h1 h2 h3 m r show ?thesis by (intro conjI)
qed

section \<open>Usage errors of the session bracket\<close>

lemma Begin_active:
  "inBeginEnd s \<Longrightarrow>
   Begin immediate resetColors s = s\<lparr>errors := errors s @ [''called Begin() multiple times'']\<rparr>"
  by (simp add: Begin_def lock_def unlock_def Let_def)

lemma End_inactive:
  "\<not> inBeginEnd s \<Longrightarrow>
   End inListCompile s = s\<lparr>errors := errors s @ [''called End() without Begin()'']\<rparr>"
  by (simp add: End_def)

lemma inBeginEnd_SetTextColor [simp]: "inBeginEnd (SetTextColor c s) = inBeginEnd s"
  by (simp add: SetTextColor_def lock_def unlock_def Let_def)

lemma inBeginEnd_SetOutlineColor [simp]: "inBeginEnd (SetOutlineColor c s) = inBeginEnd s"
  by (simp add: SetOutlineColor_def lock_def unlock_def Let_def)

lemma inBeginEnd_Begin: "inBeginEnd (Begin immediate resetColors s)"
  by (simp add: Begin_def lock_def unlock_def Let_def SetColors_def)

lemma inBeginEnd_End: "\<not> inBeginEnd (End inListCompile s)"
  by (simp add: End_def lock_def unlock_def Let_def)

lemma empty_session_eval:
  "empty_session =
     \<lparr> inBeginEnd = True, autoOutlineColor = True, setColor = True,
       textColor = white, outlineColor = darkOutline,
       va = \<lparr>vertices = [], strips = []\<rparr>, va2 = \<lparr>vertices = [], strips = []\<rparr>,
       stripTextColors = [white], stripOutlineColors = [darkOutline],
       threadSafety = True, vaMutex = 1,
       gl = [PushAttrib, DisableLighting, DisableDepthTest, EnableBlend, BlendFunc],
       errors = [] \<rparr>"
  by (simp add: empty_session_def idle_font_def Begin_def lock_def Let_def Initialize_def)

lemma drawn_session_eval:
  "drawn_session =
     \<lparr> inBeginEnd = True, autoOutlineColor = True, setColor = True,
       textColor = white, outlineColor = darkOutline,
       va = \<lparr>vertices = [(0, 0, 0, 0)], strips = []\<rparr>, va2 = \<lparr>vertices = [], strips = []\<rparr>,
       stripTextColors = [white], stripOutlineColors = [darkOutline],
       threadSafety = True, vaMutex = 1,
       gl = [PushAttrib, DisableLighting, DisableDepthTest, EnableBlend, BlendFunc],
       errors = [] \<rparr>"
  by (simp add: drawn_session_def empty_session_eval add_vertex_def AddVertexQ2dT_def)

lemma outlined_session_eval:
  "outlined_session =
     \<lparr> inBeginEnd = True, autoOutlineColor = True, setColor = True,
       textColor = white, outlineColor = darkOutline,
       va = \<lparr>vertices = [(0, 0, 0, 0)], strips = []\<rparr>,
       va2 = \<lparr>vertices = [(0, 0, 0, 0)], strips = []\<rparr>,
       stripTextColors = [white], stripOutlineColors = [darkOutline],
       threadSafety = True, vaMutex = 1,
       gl = [PushAttrib, DisableLighting, DisableDepthTest, EnableBlend, BlendFunc],
       errors = [] \<rparr>"
  by (simp add: outlined_session_def drawn_session_eval add_vertex2_def AddVertexQ2dT_def)

text \<open>
  C5. \<open>Begin\<close> in an active session logs an error and leaves the state, hence the vertices
  and strip sequences of the first session, as it was; \<open>End\<close> with no active session
  logs an error and issues no graphics call. Both return normally. After \<open>Begin\<close> a session
  is active and after \<open>End\<close> none is, so a second \<open>Begin\<close> and a second \<open>End\<close> are such
  calls whatever the state before.
\<close>

theorem Begin_End_usage_errors:
  "(inBeginEnd s \<longrightarrow>
      Begin immediate resetColors s
        = s\<lparr>errors := errors s @ [''called Begin() multiple times'']\<rparr>
      \<and> va (Begin immediate resetColors s) = va s
      \<and> va2 (Begin immediate resetColors s) = va2 s
      \<and> stripTextColors (Begin immediate resetColors s) = stripTextColors s
      \<and> stripOutlineColors (Begin immediate resetColors s) = stripOutlineColors s
      \<and> gl (Begin immediate resetColors s) = gl s)
   \<and> (\<not> inBeginEnd s \<longrightarrow>
      End inListCompile s = s\<lparr>errors := errors s @ [''called End() without Begin()'']\<rparr>
      \<and> gl (End inListCompile s) = gl s)
   \<and> Begin i2 r2 (Begin i1 r1 s)
       = (Begin i1 r1 s)\<lparr>errors := errors (Begin i1 r1 s) @ [''called Begin() multiple times'']\<rparr>
   \<and> End c2 (End c1 s)
       = (End c1 s)\<lparr>errors := errors (End c1 s) @ [''called End() without Begin()'']\<rparr>"
proof -
  have a: "inBeginEnd s \<longrightarrow>
      Begin immediate resetColors s
        = s\<lparr>errors := errors s @ [''called Begin() multiple times'']\<rparr>
      \<and> va (Begin immediate resetColors s) = va s
      \<and> va2 (Begin immediate resetColors s) = va2 s
      \<and> stripTextColors (Begin immediate resetColors s) = stripTextColors s
      \<and> stripOutlineColors (Begin immediate resetColors s) = stripOutlineColors s
      \<and> gl (Begin immediate resetColors s) = gl s"
    by (simp add: Begin_active)
  have b: "\<not> inBeginEnd s \<longrightarrow>
      End inListCompile s = s\<lparr>errors := errors s @ [''called End() without Begin()'']\<rparr>
      \<and> gl (End inListCompile s) = gl s"
    by (simp add: End_inactive)
  have c: "Begin i2 r2 (Begin i1 r1 s)
       = (Begin i1 r1 s)\<lparr>errors := errors (Begin i1 r1 s) @ [''called Begin() multiple times'']\<rparr>"
    by (rule Begin_active [OF inBeginEnd_Begin])
  have d: "End c2 (End c1 s)
       = (End c1 s)\<lparr>errors := errors (End c1 s) @ [''called End() without Begin()'']\<rparr>"
    by (rule End_inactive [OF inBeginEnd_End])
  from a b c d show ?thesis by (intro conjI)
qed

theorem Begin_End_usage_errors_witness:
  "inBeginEnd drawn_session
   \<and> Begin False True drawn_session
       = drawn_session\<lparr>errors := [''called Begin() multiple times'']\<rparr>
   \<and> vertices (va (Begin False True drawn_session)) = [(0, 0, 0, 0)]
   \<and> \<not> inBeginEnd idle_font
   \<and> End False idle_font = idle_font\<lparr>errors := [''called End() without Begin()'']\<rparr>
   \<and> gl (End False idle_font) = []"
proof -
  have a: "inBeginEnd drawn_session" by (simp add: drawn_session_eval)
  have b: "\<not> inBeginEnd idle_font" by (simp add: idle_font_def)
  have ea: "errors drawn_session = []" by (simp add: drawn_session_eval)
  have eb: "errors idle_font = []" by (simp add: idle_font_def)
  from a Begin_End_usage_errors [of drawn_session False True]
  have c: "Begin False True drawn_session
       = drawn_session\<lparr>errors := errors drawn_session @ [''called Begin() multiple times'']\<rparr>"
    by blast
  from b Begin_End_usage_errors [of idle_font _ _ False]
  have d: "End False idle_font
       = idle_font\<lparr>errors := errors idle_font @ [''called End() without Begin()'']\<rparr>"
    by blast
  from c have v: "vertices (va (Begin False True drawn_session)) = [(0, 0, 0, 0)]"
    by (simp add: drawn_session_eval)
  from d have g: "gl (End False idle_font) = []"
    by (simp add: idle_font_def)
  from a b c d v g show ?thesis by (simp add: ea eb)
qed

section \<open>Strip sequences under colour changes\<close>

lemma drawIndex_EndStrip [simp]: "drawIndex (EndStrip a) = drawIndex a"
  by (simp add: EndStrip_def drawIndex_def)

lemma distinct_adj_snoc:
  "distinct_adj (xs @ [c]) = (distinct_adj xs \<and> (xs = [] \<or> last xs \<noteq> c))"
  by (simp add: distinct_adj_append_iff)

lemma butlast_single: "length xs = 1 \<Longrightarrow> butlast xs = []"
  by (cases xs) simp_all

lemma SetTextColor_fields:
  "stripOutlineColors (SetTextColor c s) = stripOutlineColors s"
  "outlineColor (SetTextColor c s) = outlineColor s"
  "va2 (SetTextColor c s) = va2 s"
  by (simp_all add: SetTextColor_def lock_def unlock_def Let_def)

lemma SetOutlineColor_fields:
  "stripTextColors (SetOutlineColor c s) = stripTextColors s"
  "textColor (SetOutlineColor c s) = textColor s"
  "va (SetOutlineColor c s) = va s"
  by (simp_all add: SetOutlineColor_def lock_def unlock_def Let_def)

lemma SetTextColor_same:
  "textColor s = c \<Longrightarrow> SetTextColor (Some c) s = s"
  by (auto simp add: SetTextColor_def lock_def unlock_def Let_def)

lemma SetTextColor_overwrite:
  assumes "inBeginEnd s" and "c \<noteq> textColor s"
    and "drawIndex (va s) = 0" and "stripTextColors s \<noteq> []"
  shows "stripTextColors (SetTextColor (Some c) s) = butlast (stripTextColors s) @ [c]"
    and "va (SetTextColor (Some c) s) = va s"
    and "textColor (SetTextColor (Some c) s) = c"
  using assms by (simp_all add: SetTextColor_def lock_def unlock_def Let_def)

lemma SetTextColor_append:
  assumes "inBeginEnd s" and "c \<noteq> textColor s"
    and "\<not> (drawIndex (va s) = 0 \<and> stripTextColors s \<noteq> [])"
  shows "stripTextColors (SetTextColor (Some c) s) = stripTextColors s @ [c]"
    and "va (SetTextColor (Some c) s) = EndStrip (va s)"
    and "textColor (SetTextColor (Some c) s) = c"
  using assms by (auto simp add: SetTextColor_def lock_def unlock_def Let_def)

lemma SetOutlineColor_same:
  "outlineColor s = c \<Longrightarrow> SetOutlineColor (Some c) s = s"
  by (auto simp add: SetOutlineColor_def lock_def unlock_def Let_def)

lemma SetOutlineColor_overwrite:
  assumes "inBeginEnd s" and "c \<noteq> outlineColor s"
    and "drawIndex (va2 s) = 0" and "stripOutlineColors s \<noteq> []"
  shows "stripOutlineColors (SetOutlineColor (Some c) s) = butlast (stripOutlineColors s) @ [c]"
    and "va2 (SetOutlineColor (Some c) s) = va2 s"
    and "outlineColor (SetOutlineColor (Some c) s) = c"
  using assms by (simp_all add: SetOutlineColor_def lock_def unlock_def Let_def)

lemma SetOutlineColor_append:
  assumes "inBeginEnd s" and "c \<noteq> outlineColor s"
    and "\<not> (drawIndex (va2 s) = 0 \<and> stripOutlineColors s \<noteq> [])"
  shows "stripOutlineColors (SetOutlineColor (Some c) s) = stripOutlineColors s @ [c]"
    and "va2 (SetOutlineColor (Some c) s) = EndStrip (va2 s)"
    and "outlineColor (SetOutlineColor (Some c) s) = c"
  using assms by (auto simp add: SetOutlineColor_def lock_def unlock_def Let_def)

lemma SetTextColor_strips_cases:
  "stripTextColors (SetTextColor color s) =
     (let c = (case color of None \<Rightarrow> white | Some c \<Rightarrow> c) in
      if inBeginEnd s \<and> c \<noteq> textColor s then
        (if drawIndex (va s) = 0 \<and> stripTextColors s \<noteq> []
         then butlast (stripTextColors s) @ [c] else stripTextColors s @ [c])
      else stripTextColors s)"
  "drawIndex (va (SetTextColor color s)) = drawIndex (va s)"
  "textColor (SetTextColor color s) = (case color of None \<Rightarrow> white | Some c \<Rightarrow> c)"
  by (auto simp add: SetTextColor_def lock_def unlock_def Let_def)

lemma SetOutlineColor_strips_cases:
  "stripOutlineColors (SetOutlineColor color s) =
     (let c = (case color of None \<Rightarrow> ChooseOutlineColor (textColor s) | Some c \<Rightarrow> c) in
      if inBeginEnd s \<and> c \<noteq> outlineColor s then
        (if drawIndex (va2 s) = 0 \<and> stripOutlineColors s \<noteq> []
         then butlast (stripOutlineColors s) @ [c] else stripOutlineColors s @ [c])
      else stripOutlineColors s)"
  "drawIndex (va2 (SetOutlineColor color s)) = drawIndex (va2 s)"
  "outlineColor (SetOutlineColor color s)
     = (case color of None \<Rightarrow> ChooseOutlineColor (textColor s) | Some c \<Rightarrow> c)"
  by (auto simp add: SetOutlineColor_def lock_def unlock_def Let_def)

lemma strips_inv_SetTextColor: "strips_inv s \<Longrightarrow> strips_inv (SetTextColor color s)"
  unfolding strips_inv_def inBeginEnd_SetTextColor SetTextColor_fields SetTextColor_strips_cases
  by (auto simp add: Let_def distinct_adj_snoc butlast_single)

lemma strips_inv_SetOutlineColor: "strips_inv s \<Longrightarrow> strips_inv (SetOutlineColor color s)"
  unfolding strips_inv_def inBeginEnd_SetOutlineColor SetOutlineColor_fields
    SetOutlineColor_strips_cases
  by (auto simp add: Let_def distinct_adj_snoc butlast_single)

lemma strips_inv_SetColors: "strips_inv s \<Longrightarrow> strips_inv (SetColors tc oc s)"
  by (simp add: SetColors_def strips_inv_SetTextColor strips_inv_SetOutlineColor)

lemma Begin_fresh:
  assumes "\<not> inBeginEnd s"
  shows "stripTextColors (Begin i r s) = [textColor (Begin i r s)]"
    and "stripOutlineColors (Begin i r s) = [outlineColor (Begin i r s)]"
    and "drawIndex (va (Begin i r s)) = 0"
    and "drawIndex (va2 (Begin i r s)) = 0"
  using assms
  by (simp_all add: Begin_def lock_def Let_def SetColors_def Initialize_def drawIndex_def)

lemma strips_inv_Begin: "strips_inv s \<Longrightarrow> strips_inv (Begin i r s)"
proof (cases "inBeginEnd s")
  case True
  assume "strips_inv s"
  with True show ?thesis
    by (simp add: Begin_active strips_inv_def)
next
  case False
  then show ?thesis
    by (simp add: strips_inv_def Begin_fresh)
qed

lemma strips_inv_add_vertex: "strips_inv s \<Longrightarrow> strips_inv (add_vertex v s)"
  by (simp add: strips_inv_def add_vertex_def AddVertexQ2dT_def drawIndex_def)

lemma strips_inv_add_vertex2: "strips_inv s \<Longrightarrow> strips_inv (add_vertex2 v s)"
  by (simp add: strips_inv_def add_vertex2_def AddVertexQ2dT_def drawIndex_def)

lemma strips_inv_End: "strips_inv (End c s)"
  by (simp add: strips_inv_def inBeginEnd_End)

lemma SetTextColor_twice_after_Begin:
  assumes "\<not> inBeginEnd s"
  shows "stripTextColors (SetTextColor (Some c) (SetTextColor (Some c) (Begin i r s))) = [c]"
proof -
  let ?b = "Begin i r s"
  have one: "stripTextColors (SetTextColor (Some c) ?b) = [c]"
    using Begin_fresh [OF assms, of i r] inBeginEnd_Begin [of i r s]
    by (simp add: SetTextColor_strips_cases)
  have "textColor (SetTextColor (Some c) ?b) = c"
    by (simp add: SetTextColor_strips_cases)
  then have "SetTextColor (Some c) (SetTextColor (Some c) ?b) = SetTextColor (Some c) ?b"
    by (rule SetTextColor_same)
  with one show ?thesis by simp
qed

lemma SetOutlineColor_twice_after_Begin:
  assumes "\<not> inBeginEnd s"
  shows "stripOutlineColors (SetOutlineColor (Some c) (SetOutlineColor (Some c) (Begin i r s))) = [c]"
proof -
  let ?b = "Begin i r s"
  have one: "stripOutlineColors (SetOutlineColor (Some c) ?b) = [c]"
    using Begin_fresh [OF assms, of i r] inBeginEnd_Begin [of i r s]
    by (simp add: SetOutlineColor_strips_cases)
  have "outlineColor (SetOutlineColor (Some c) ?b) = c"
    by (simp add: SetOutlineColor_strips_cases)
  then have "SetOutlineColor (Some c) (SetOutlineColor (Some c) ?b) = SetOutlineColor (Some c) ?b"
    by (rule SetOutlineColor_same)
  with one show ?thesis by simp
qed

lemma session_reachable_inv: "session_reachable s \<Longrightarrow> strips_inv s"
proof (induction rule: session_reachable.induct)
  case (idle s)
  then show ?case by (simp add: strips_inv_def)
next
  case (begin_session s immediate resetColors)
  then show ?case by (simp add: strips_inv_Begin)
next
  case (end_session s inListCompile)
  show ?case by (rule strips_inv_End)
next
  case (text_color s color)
  then show ?case by (simp add: strips_inv_SetTextColor)
next
  case (outline_color s color)
  then show ?case by (simp add: strips_inv_SetOutlineColor)
next
  case (vertex s v)
  then show ?case by (simp add: strips_inv_add_vertex)
next
  case (vertex2 s v)
  then show ?case by (simp add: strips_inv_add_vertex2)
qed

text \<open>
  C6. The strip invariant holds in the state after construction and after \<open>End\<close> (no session
  is active), \<open>Begin\<close> establishes it, and \<open>SetTextColor\<close>, \<open>SetOutlineColor\<close> and
  appending vertices keep it; so in every reachable state with an active session neighbouring
  strips of a sequence have different colours. In a session, \<open>SetTextColor\<close> with the current
  text colour changes nothing; with another colour it overwrites the last strip colour while
  the primary collection is empty, and otherwise appends a strip and records the boundary at
  the current vertex count. \<open>SetOutlineColor\<close> does the same with the outline colour, the
  outline strip sequence and the outline collection. Two calls with the same colour right
  after \<open>Begin\<close> leave exactly one strip.
\<close>

theorem SetTextColor_strip_invariant:
  "(strips_inv s \<longrightarrow>
      strips_inv (SetTextColor color s) \<and> strips_inv (SetOutlineColor color s)
      \<and> strips_inv (Begin i r s) \<and> strips_inv (add_vertex v s) \<and> strips_inv (add_vertex2 v s)
      \<and> strips_inv (End e s)
      \<and> (inBeginEnd s \<longrightarrow> distinct_adj (stripTextColors (SetTextColor color s))
                          \<and> distinct_adj (stripOutlineColors (SetOutlineColor color s))))
   \<and> (session_reachable s \<and> inBeginEnd s \<longrightarrow>
        distinct_adj (stripTextColors s) \<and> distinct_adj (stripOutlineColors s))
   \<and> (inBeginEnd s \<and> c = textColor s \<longrightarrow> SetTextColor (Some c) s = s)
   \<and> (inBeginEnd s \<and> c \<noteq> textColor s \<and> drawIndex (va s) = 0 \<and> stripTextColors s \<noteq> [] \<longrightarrow>
        stripTextColors (SetTextColor (Some c) s) = butlast (stripTextColors s) @ [c]
        \<and> va (SetTextColor (Some c) s) = va s
        \<and> textColor (SetTextColor (Some c) s) = c)
   \<and> (inBeginEnd s \<and> c \<noteq> textColor s \<and> \<not> (drawIndex (va s) = 0 \<and> stripTextColors s \<noteq> []) \<longrightarrow>
        stripTextColors (SetTextColor (Some c) s) = stripTextColors s @ [c]
        \<and> strips (va (SetTextColor (Some c) s)) = strips (va s) @ [drawIndex (va s)]
        \<and> vertices (va (SetTextColor (Some c) s)) = vertices (va s)
        \<and> textColor (SetTextColor (Some c) s) = c)
   \<and> (\<not> inBeginEnd s \<longrightarrow>
        stripTextColors (SetTextColor (Some c) (SetTextColor (Some c) (Begin i r s))) = [c])
   \<and> (inBeginEnd s \<and> c = outlineColor s \<longrightarrow> SetOutlineColor (Some c) s = s)
   \<and> (inBeginEnd s \<and> c \<noteq> outlineColor s \<and> drawIndex (va2 s) = 0
          \<and> stripOutlineColors s \<noteq> [] \<longrightarrow>
        stripOutlineColors (SetOutlineColor (Some c) s) = butlast (stripOutlineColors s) @ [c]
        \<and> va2 (SetOutlineColor (Some c) s) = va2 s
        \<and> outlineColor (SetOutlineColor (Some c) s) = c)
   \<and> (inBeginEnd s \<and> c \<noteq> outlineColor s
          \<and> \<not> (drawIndex (va2 s) = 0 \<and> stripOutlineColors s \<noteq> []) \<longrightarrow>
        stripOutlineColors (SetOutlineColor (Some c) s) = stripOutlineColors s @ [c]
        \<and> strips (va2 (SetOutlineColor (Some c) s)) = strips (va2 s) @ [drawIndex (va2 s)]
        \<and> vertices (va2 (SetOutlineColor (Some c) s)) = vertices (va2 s)
        \<and> outlineColor (SetOutlineColor (Some c) s) = c)
   \<and> (\<not> inBeginEnd s \<longrightarrow>
        stripOutlineColors (SetOutlineColor (Some c) (SetOutlineColor (Some c) (Begin i r s)))
          = [c])"
proof -
  have inv: "strips_inv s \<longrightarrow>
      strips_inv (SetTextColor color s) \<and> strips_inv (SetOutlineColor color s)
      \<and> strips_inv (Begin i r s) \<and> strips_inv (add_vertex v s) \<and> strips_inv (add_vertex2 v s)
      \<and> strips_inv (End e s)
      \<and> (inBeginEnd s \<longrightarrow> distinct_adj (stripTextColors (SetTextColor color s))
                          \<and> distinct_adj (stripOutlineColors (SetOutlineColor color s)))"
  proof
    assume h: "strips_inv s"
    have t: "inBeginEnd s \<longrightarrow> distinct_adj (stripTextColors (SetTextColor color s))"
      using strips_inv_SetTextColor [OF h, of color] by (simp add: strips_inv_def)
    have o: "inBeginEnd s \<longrightarrow> distinct_adj (stripOutlineColors (SetOutlineColor color s))"
      using strips_inv_SetOutlineColor [OF h, of color] by (simp add: strips_inv_def)
    from h t o show "strips_inv (SetTextColor color s) \<and> strips_inv (SetOutlineColor color s)
      \<and> strips_inv (Begin i r s) \<and> strips_inv (add_vertex v s) \<and> strips_inv (add_vertex2 v s)
      \<and> strips_inv (End e s)
      \<and> (inBeginEnd s \<longrightarrow> distinct_adj (stripTextColors (SetTextColor color s))
                          \<and> distinct_adj (stripOutlineColors (SetOutlineColor color s)))"
      by (simp add: strips_inv_SetTextColor strips_inv_SetOutlineColor strips_inv_Begin
          strips_inv_add_vertex strips_inv_add_vertex2 strips_inv_End)
  qed
  have reach: "session_reachable s \<and> inBeginEnd s \<longrightarrow>
        distinct_adj (stripTextColors s) \<and> distinct_adj (stripOutlineColors s)"
    using session_reachable_inv [of s] by (simp add: strips_inv_def)
  have same: "inBeginEnd s \<and> c = textColor s \<longrightarrow> SetTextColor (Some c) s = s"
    by (simp add: SetTextColor_same)
  have over: "inBeginEnd s \<and> c \<noteq> textColor s \<and> drawIndex (va s) = 0 \<and> stripTextColors s \<noteq> [] \<longrightarrow>
        stripTextColors (SetTextColor (Some c) s) = butlast (stripTextColors s) @ [c]
        \<and> va (SetTextColor (Some c) s) = va s
        \<and> textColor (SetTextColor (Some c) s) = c"
    using SetTextColor_overwrite [of s c] by blast
  have app: "inBeginEnd s \<and> c \<noteq> textColor s \<and> \<not> (drawIndex (va s) = 0 \<and> stripTextColors s \<noteq> []) \<longrightarrow>
        stripTextColors (SetTextColor (Some c) s) = stripTextColors s @ [c]
        \<and> strips (va (SetTextColor (Some c) s)) = strips (va s) @ [drawIndex (va s)]
        \<and> vertices (va (SetTextColor (Some c) s)) = vertices (va s)
        \<and> textColor (SetTextColor (Some c) s) = c"
  proof
    assume h: "inBeginEnd s \<and> c \<noteq> textColor s \<and> \<not> (drawIndex (va s) = 0 \<and> stripTextColors s \<noteq> [])"
    then have "stripTextColors (SetTextColor (Some c) s) = stripTextColors s @ [c]"
      and "va (SetTextColor (Some c) s) = EndStrip (va s)"
      and "textColor (SetTextColor (Some c) s) = c"
      using SetTextColor_append [of s c] by blast+
    then show "stripTextColors (SetTextColor (Some c) s) = stripTextColors s @ [c]
        \<and> strips (va (SetTextColor (Some c) s)) = strips (va s) @ [drawIndex (va s)]
        \<and> vertices (va (SetTextColor (Some c) s)) = vertices (va s)
        \<and> textColor (SetTextColor (Some c) s) = c"
      by (simp add: EndStrip_def)
  qed
  have twice: "\<not> inBeginEnd s \<longrightarrow>
        stripTextColors (SetTextColor (Some c) (SetTextColor (Some c) (Begin i r s))) = [c]"
    by (simp add: SetTextColor_twice_after_Begin)
  have osame: "inBeginEnd s \<and> c = outlineColor s \<longrightarrow> SetOutlineColor (Some c) s = s"
    by (simp add: SetOutlineColor_same)
  have oover: "inBeginEnd s \<and> c \<noteq> outlineColor s \<and> drawIndex (va2 s) = 0
          \<and> stripOutlineColors s \<noteq> [] \<longrightarrow>
        stripOutlineColors (SetOutlineColor (Some c) s) = butlast (stripOutlineColors s) @ [c]
        \<and> va2 (SetOutlineColor (Some c) s) = va2 s
        \<and> outlineColor (SetOutlineColor (Some c) s) = c"
    using SetOutlineColor_overwrite [of s c] by blast
  have oapp: "inBeginEnd s \<and> c \<noteq> outlineColor s
          \<and> \<not> (drawIndex (va2 s) = 0 \<and> stripOutlineColors s \<noteq> []) \<longrightarrow>
        stripOutlineColors (SetOutlineColor (Some c) s) = stripOutlineColors s @ [c]
        \<and> strips (va2 (SetOutlineColor (Some c) s)) = strips (va2 s) @ [drawIndex (va2 s)]
        \<and> vertices (va2 (SetOutlineColor (Some c) s)) = vertices (va2 s)
        \<and> outlineColor (SetOutlineColor (Some c) s) = c"
  proof
    assume h: "inBeginEnd s \<and> c \<noteq> outlineColor s
          \<and> \<not> (drawIndex (va2 s) = 0 \<and> stripOutlineColors s \<noteq> [])"
    then have "stripOutlineColors (SetOutlineColor (Some c) s) = stripOutlineColors s @ [c]"
      and "va2 (SetOutlineColor (Some c) s) = EndStrip (va2 s)"
      and "outlineColor (SetOutlineColor (Some c) s) = c"
      using SetOutlineColor_append [of s c] by blast+
    then show "stripOutlineColors (SetOutlineColor (Some c) s) = stripOutlineColors s @ [c]
        \<and> strips (va2 (SetOutlineColor (Some c) s)) = strips (va2 s) @ [drawIndex (va2 s)]
        \<and> vertices (va2 (SetOutlineColor (Some c) s)) = vertices (va2 s)
        \<and> outlineColor (SetOutlineColor (Some c) s) = c"
      by (simp add: EndStrip_def)
  qed
  have otwice: "\<not> inBeginEnd s \<longrightarrow>
        stripOutlineColors (SetOutlineColor (Some c) (SetOutlineColor (Some c) (Begin i r s)))
          = [c]"
    by (simp add: SetOutlineColor_twice_after_Begin)
  from inv reach same over app twice osame oover oapp otwice show ?thesis by (intro conjI)
qed

theorem SetTextColor_strip_invariant_witness:
  "strips_inv drawn_session \<and> inBeginEnd drawn_session
   \<and> strips_inv (SetTextColor (Some (1, 0, 0, 1)) drawn_session)
   \<and> distinct_adj (stripTextColors (SetTextColor (Some (1, 0, 0, 1)) drawn_session))
   \<and> SetTextColor (Some white) drawn_session = drawn_session
   \<and> stripTextColors (SetTextColor (Some (1, 0, 0, 1)) empty_session) = [(1, 0, 0, 1)]
   \<and> stripTextColors (SetTextColor (Some (1, 0, 0, 1)) drawn_session) = [white, (1, 0, 0, 1)]
   \<and> strips (va (SetTextColor (Some (1, 0, 0, 1)) drawn_session)) = [1]
   \<and> stripTextColors (SetTextColor (Some (1, 0, 0, 1))
         (SetTextColor (Some (1, 0, 0, 1)) (Begin False False idle_font))) = [(1, 0, 0, 1)]
   \<and> session_reachable (SetTextColor (Some (1, 0, 0, 1)) drawn_session)
   \<and> inBeginEnd (SetTextColor (Some (1, 0, 0, 1)) drawn_session)
   \<and> distinct_adj (stripOutlineColors (SetTextColor (Some (1, 0, 0, 1)) drawn_session))
   \<and> SetOutlineColor (Some darkOutline) drawn_session = drawn_session
   \<and> stripOutlineColors (SetOutlineColor (Some (1, 0, 0, 1)) drawn_session) = [(1, 0, 0, 1)]
   \<and> stripOutlineColors (SetOutlineColor (Some (1, 0, 0, 1)) outlined_session)
       = [darkOutline, (1, 0, 0, 1)]
   \<and> strips (va2 (SetOutlineColor (Some (1, 0, 0, 1)) outlined_session)) = [1]
   \<and> stripOutlineColors (SetOutlineColor (Some (1, 0, 0, 1))
         (SetOutlineColor (Some (1, 0, 0, 1)) (Begin False False idle_font))) = [(1, 0, 0, 1)]"
proof -
  let ?red = "(1, 0, 0, 1) :: float4"
  have ne: "?red \<noteq> white" "?red \<noteq> darkOutline"
    by (simp_all add: white_def darkOutline_def)
  have inv: "strips_inv drawn_session"
    by (simp add: strips_inv_def drawn_session_eval drawIndex_def)
  have act: "inBeginEnd drawn_session" "inBeginEnd empty_session" "inBeginEnd outlined_session"
    by (simp_all add: drawn_session_eval empty_session_eval outlined_session_eval)
  have idle: "\<not> inBeginEnd idle_font" by (simp add: idle_font_def)
  have tc: "textColor drawn_session = white" "textColor empty_session = white"
    by (simp_all add: drawn_session_eval empty_session_eval)
  have oc: "outlineColor drawn_session = darkOutline" "outlineColor outlined_session = darkOutline"
    by (simp_all add: drawn_session_eval outlined_session_eval)
  have e0: "drawIndex (va empty_session) = 0" "stripTextColors empty_session \<noteq> []"
    "butlast (stripTextColors empty_session) = []"
    by (simp_all add: empty_session_eval drawIndex_def)
  have d1: "\<not> (drawIndex (va drawn_session) = 0 \<and> stripTextColors drawn_session \<noteq> [])"
    "stripTextColors drawn_session = [white]" "strips (va drawn_session) = []"
    "drawIndex (va drawn_session) = 1"
    by (simp_all add: drawn_session_eval drawIndex_def)
  have d2: "drawIndex (va2 drawn_session) = 0" "stripOutlineColors drawn_session \<noteq> []"
    "butlast (stripOutlineColors drawn_session) = []"
    by (simp_all add: drawn_session_eval drawIndex_def)
  have o1: "\<not> (drawIndex (va2 outlined_session) = 0 \<and> stripOutlineColors outlined_session \<noteq> [])"
    "stripOutlineColors outlined_session = [darkOutline]" "strips (va2 outlined_session) = []"
    "drawIndex (va2 outlined_session) = 1"
    by (simp_all add: outlined_session_eval drawIndex_def)
  note T1 = SetTextColor_strip_invariant [of drawn_session "Some ?red" _ _ _ _ white]
  note T2 = SetTextColor_strip_invariant [of empty_session _ _ _ _ _ ?red]
  note T3 = SetTextColor_strip_invariant [of drawn_session _ _ _ _ _ ?red]
  note T4 = SetTextColor_strip_invariant [of idle_font _ False False _ _ ?red]
  note T6 = SetTextColor_strip_invariant [of drawn_session _ _ _ _ _ darkOutline]
  note T7 = SetTextColor_strip_invariant [of outlined_session _ _ _ _ _ ?red]
  from T1 inv act have p1: "strips_inv (SetTextColor (Some ?red) drawn_session)"
    and p2: "distinct_adj (stripTextColors (SetTextColor (Some ?red) drawn_session))"
    by blast+
  from T1 act tc have p3: "SetTextColor (Some white) drawn_session = drawn_session"
    by simp
  from T2 act tc ne e0 have p4: "stripTextColors (SetTextColor (Some ?red) empty_session) = [?red]"
    by simp
  from T3 act tc ne d1 have p5: "stripTextColors (SetTextColor (Some ?red) drawn_session) = [white, ?red]"
    and p6: "strips (va (SetTextColor (Some ?red) drawn_session)) = [1]"
    by simp_all
  from T4 idle have p7: "stripTextColors (SetTextColor (Some ?red)
         (SetTextColor (Some ?red) (Begin False False idle_font))) = [?red]"
    by blast
  have r0: "session_reachable idle_font"
    using idle by (rule session_reachable.idle)
  then have "session_reachable empty_session"
    unfolding empty_session_def by (rule session_reachable.begin_session)
  then have "session_reachable drawn_session"
    unfolding drawn_session_def by (rule session_reachable.vertex)
  then have r1: "session_reachable (SetTextColor (Some ?red) drawn_session)"
    by (rule session_reachable.text_color)
  have a1: "inBeginEnd (SetTextColor (Some ?red) drawn_session)"
    using act(1) by simp
  note T5 = SetTextColor_strip_invariant [of "SetTextColor (Some ?red) drawn_session"]
  from T5 r1 a1
  have p8: "distinct_adj (stripOutlineColors (SetTextColor (Some ?red) drawn_session))"
    by blast
  from T6 act oc have q1: "SetOutlineColor (Some darkOutline) drawn_session = drawn_session"
    by simp
  from T3 act oc ne d2
  have q2: "stripOutlineColors (SetOutlineColor (Some ?red) drawn_session) = [?red]"
    by simp
  from T7 act oc ne o1
  have q3: "stripOutlineColors (SetOutlineColor (Some ?red) outlined_session) = [darkOutline, ?red]"
    and q4: "strips (va2 (SetOutlineColor (Some ?red) outlined_session)) = [1]"
    by simp_all
  from T4 idle have q5: "stripOutlineColors (SetOutlineColor (Some ?red)
         (SetOutlineColor (Some ?red) (Begin False False idle_font))) = [?red]"
    by blast
  from inv act(1) p1 p2 p3 p4 p5 p6 p7 r1 a1 p8 q1 q2 q3 q4 q5 show ?thesis by (intro conjI)
qed

section \<open>Null colour pointers\<close>

text \<open>
  C10. \<open>SetTextColor\<close> with a null pointer sets the text colour to white
  \<open>(1, 1, 1, 0.95)\<close>, and \<open>SetOutlineColor\<close> with a null pointer sets the outline colour to
  \<open>ChooseOutlineColor\<close> of the current text colour, in every state, with or without an
  active session.
\<close>

theorem null_colors_default:
  "textColor (SetTextColor None s) = white
   \<and> white = (1, 1, 1, 0.95)
   \<and> outlineColor (SetOutlineColor None s) = ChooseOutlineColor (textColor s)"
  by (simp add: SetTextColor_strips_cases SetOutlineColor_strips_cases white_def)

section \<open>Outline contrast\<close>

subsection \<open>Rounding to nearest\<close>

lemma round_even_near:
  assumes "\<bar>y - of_int m\<bar> < 1 / 2"
  shows "round_even y = m"
proof (cases "of_int m \<le> y")
  case True
  with assms have "\<lfloor>y\<rfloor> = m" by (intro floor_unique) auto
  with assms True show ?thesis by (simp add: round_even_def)
next
  case False
  with assms have "\<lfloor>y\<rfloor> = m - 1" by (intro floor_unique) auto
  with assms False show ?thesis by (auto simp add: round_even_def Let_def)
qed

lemma round_even_error: "\<bar>of_int (round_even y) - y\<bar> \<le> 1 / 2"
proof -
  have "of_int \<lfloor>y\<rfloor> \<le> y" "y < of_int \<lfloor>y\<rfloor> + 1" by linarith+
  then show ?thesis
    by (auto simp add: round_even_def Let_def abs_le_iff)
qed

lemma floor_log2_binade:
  assumes "2 powi e \<le> \<bar>x\<bar>" "\<bar>x\<bar> < 2 powi (e + 1)"
  shows "\<lfloor>log 2 \<bar>x\<bar>\<rfloor> = e"
proof -
  have pos: "0 < \<bar>x\<bar>"
    using assms(1) by (smt (verit) zero_less_power_int)
  have a: "2 powr real_of_int e \<le> \<bar>x\<bar>"
    using assms(1) by (subst powr_real_of_int') auto
  have b: "\<bar>x\<bar> < 2 powr real_of_int (e + 1)"
    using assms(2) by (subst powr_real_of_int') auto
  show ?thesis
    using a b pos floor_log_eq_powr_iff [of "\<bar>x\<bar>" 2 e] by simp
qed

lemma rn_eqI:
  assumes "2 powi e \<le> \<bar>x\<bar>" "\<bar>x\<bar> < 2 powi (e + 1)"
    and "\<bar>x / 2 powi (e - int p + 1) - of_int m\<bar> < 1 / 2"
  shows "rn p x = of_int m * 2 powi (e - int p + 1)"
proof -
  have "0 < \<bar>x\<bar>"
    using assms(1) by (smt (verit) zero_less_power_int)
  then have nz: "x \<noteq> 0" by auto
  show ?thesis
    using nz floor_log2_binade [OF assms(1,2)] round_even_near [OF assms(3)]
    by (simp add: rn_def Let_def)
qed

lemma rn_eqI_bounds:
  assumes "lo \<le> v" "v \<le> hi"
    and "2 powi e \<le> lo" "hi < 2 powi (e + 1)"
    and "(of_int m - 1 / 2) * 2 powi (e - int p + 1) < lo"
    and "hi < (of_int m + 1 / 2) * 2 powi (e - int p + 1)"
  shows "rn p v = of_int m * 2 powi (e - int p + 1)"
proof (rule rn_eqI)
  have s: "(0::real) < 2 powi (e - int p + 1)" by simp
  have e: "(0::real) < 2 powi e" by simp
  have v: "0 < v" using assms(1,3) e by linarith
  show "2 powi e \<le> \<bar>v\<bar>" using assms v by linarith
  show "\<bar>v\<bar> < 2 powi (e + 1)" using assms v by linarith
  have "(of_int m - 1 / 2) * 2 powi (e - int p + 1) < v"
    "v < (of_int m + 1 / 2) * 2 powi (e - int p + 1)"
    using assms by linarith+
  then have "of_int m - 1 / 2 < v / 2 powi (e - int p + 1)"
    "v / 2 powi (e - int p + 1) < of_int m + 1 / 2"
    using s by (simp_all add: pos_less_divide_eq pos_divide_less_eq)
  then show "\<bar>v / 2 powi (e - int p + 1) - of_int m\<bar> < 1 / 2" by linarith
qed

lemma rn_error: "\<bar>rn p x - x\<bar> \<le> \<bar>x\<bar> * 2 powi (- int p)"
proof (cases "x = 0")
  case True
  then show ?thesis by (simp add: rn_def)
next
  case False
  define e where "e = \<lfloor>log 2 \<bar>x\<bar>\<rfloor>"
  define s :: real where "s = 2 powi (e - int p + 1)"
  have s: "0 < s" by (simp add: s_def)
  have "real_of_int e \<le> log 2 \<bar>x\<bar>" unfolding e_def by linarith
  then have le: "2 powi e \<le> \<bar>x\<bar>"
    using False by (simp add: le_log_iff powr_real_of_int')
  have "rn p x - x = (of_int (round_even (x / s)) - x / s) * s"
    using False s by (simp add: rn_def Let_def e_def s_def algebra_simps)
  then have "\<bar>rn p x - x\<bar> = \<bar>of_int (round_even (x / s)) - x / s\<bar> * s"
    using s by (simp add: abs_mult)
  also have "\<dots> \<le> (1 / 2) * s"
    using round_even_error [of "x / s"] s by (intro mult_right_mono) auto
  also have "(1 / 2) * s = 2 powi e * 2 powi (- int p)"
  proof -
    have "s = 2 powi (e + (- int p + 1))" by (simp add: s_def algebra_simps)
    also have "\<dots> = 2 powi e * 2 powi (- int p + 1)"
      by (subst power_int_add) auto
    also have "(2::real) powi (- int p + 1) = 2 powi (- int p) * 2"
      by (subst power_int_add) auto
    finally show ?thesis by simp
  qed
  also have "\<dots> \<le> \<bar>x\<bar> * 2 powi (- int p)"
    using le by (intro mult_right_mono) auto
  finally show ?thesis .
qed

lemma rn_bounds:
  assumes "0 \<le> lo" "lo \<le> v" "v \<le> hi"
  shows "lo * (1 - 2 powi (- int p)) \<le> rn p v"
    and "rn p v \<le> hi * (1 + 2 powi (- int p))"
proof -
  have u: "(0::real) \<le> 2 powi (- int p)" by simp
  have u1: "(2::real) powi (- int p) \<le> 1"
    by (simp add: power_int_minus inverse_le_1_iff)
  have v: "0 \<le> v" using assms by linarith
  have err: "\<bar>rn p v - v\<bar> \<le> v * 2 powi (- int p)"
    using rn_error [of p v] v by simp
  have "lo * (1 - 2 powi (- int p)) \<le> v * (1 - 2 powi (- int p))"
    using assms u1 by (intro mult_right_mono) auto
  also have "\<dots> \<le> rn p v" using err by (simp add: algebra_simps abs_le_iff)
  finally show "lo * (1 - 2 powi (- int p)) \<le> rn p v" .
  have "rn p v \<le> v * (1 + 2 powi (- int p))"
    using err by (simp add: algebra_simps abs_le_iff)
  also have "\<dots> \<le> hi * (1 + 2 powi (- int p))"
    using assms u by (intro mult_right_mono) auto
  finally show "rn p v \<le> hi * (1 + 2 powi (- int p))" .
qed

subsection \<open>Bounds for the rounded operations\<close>

lemma to_float_eqI:
  assumes "2 powi e \<le> \<bar>x\<bar>" "\<bar>x\<bar> < 2 powi (e + 1)"
    and "\<bar>x / 2 powi (e - 23) - of_int m\<bar> < 1 / 2"
  shows "to_float x = of_int m * 2 powi (e - 23)"
  using rn_eqI [of e x 24 m] assms by (simp add: to_float_def)

lemma to_double_eqI:
  assumes "2 powi e \<le> \<bar>x\<bar>" "\<bar>x\<bar> < 2 powi (e + 1)"
    and "\<bar>x / 2 powi (e - 52) - of_int m\<bar> < 1 / 2"
  shows "to_double x = of_int m * 2 powi (e - 52)"
  using rn_eqI [of e x 53 m] assms by (simp add: to_double_def)

lemma to_float_eqI_bounds:
  assumes "lo \<le> v \<and> v \<le> hi"
    and "2 powi e \<le> lo" "hi < 2 powi (e + 1)"
    and "(of_int m - 1 / 2) * 2 powi (e - 23) < lo"
    and "hi < (of_int m + 1 / 2) * 2 powi (e - 23)"
  shows "to_float v = of_int m * 2 powi (e - 23)"
  using rn_eqI_bounds [of lo v hi e m 24] assms by (simp add: to_float_def)

lemma to_double_bounds:
  assumes "lo \<le> v \<and> v \<le> hi" "0 \<le> lo"
    and "L \<le> lo * (1 - 1 / 2 ^ 53)" "hi * (1 + 1 / 2 ^ 53) \<le> H"
  shows "L \<le> to_double v \<and> to_double v \<le> H"
proof -
  have u: "(2::real) powi (- int 53) = 1 / 2 ^ 53"
    by (simp add: power_int_minus_divide)
  show ?thesis
    using rn_bounds [of lo v hi 53] assms unfolding u to_double_def by linarith
qed

lemma mul_double_bounds:
  assumes "lo \<le> v \<and> v \<le> hi" "0 \<le> k" "0 \<le> lo"
    and "L \<le> k * lo * (1 - 1 / 2 ^ 53)" "k * hi * (1 + 1 / 2 ^ 53) \<le> H"
  shows "L \<le> mul_double k v \<and> mul_double k v \<le> H"
  unfolding mul_double_def
proof (rule to_double_bounds)
  show "k * lo \<le> k * v \<and> k * v \<le> k * hi"
    using assms(1,2) by (simp add: mult_left_mono)
  show "0 \<le> k * lo" using assms(2,3) by simp
qed (use assms in simp_all)

lemma add_double_bounds:
  assumes "lo1 \<le> a \<and> a \<le> hi1" "lo2 \<le> b \<and> b \<le> hi2" "0 \<le> lo1 + lo2"
    and "L \<le> (lo1 + lo2) * (1 - 1 / 2 ^ 53)" "(hi1 + hi2) * (1 + 1 / 2 ^ 53) \<le> H"
  shows "L \<le> add_double a b \<and> add_double a b \<le> H"
  unfolding add_double_def
proof (rule to_double_bounds)
  show "lo1 + lo2 \<le> a + b \<and> a + b \<le> hi1 + hi2"
    using assms(1,2) by simp
qed (use assms in simp_all)

lemma powr_11_5_bounds:
  fixes x a b :: real
  assumes "0 < x" "0 \<le> a" "a ^ 5 \<le> x ^ 11" "x ^ 11 \<le> b ^ 5" "0 \<le> b"
  shows "a \<le> x powr (11 / 5) \<and> x powr (11 / 5) \<le> b"
proof -
  define z where "z = x powr (11 / 5)"
  have z: "0 \<le> z" by (simp add: z_def)
  have "z ^ 5 = x powr (of_nat 5 * (11 / 5))"
    unfolding z_def using assms(1) by (intro powr_power) simp
  also have "\<dots> = x powr (of_nat 11)" by simp
  also have "\<dots> = x ^ 11" using assms(1) by (rule powr_realpow)
  finally have e: "z ^ 5 = x ^ 11" .
  have "a ^ Suc 4 \<le> z ^ Suc 4" using assms(3) e by simp
  then have 1: "a \<le> z" using z by (rule power_le_imp_le_base)
  have "z ^ Suc 4 \<le> b ^ Suc 4" using assms(4) e by simp
  then have 2: "z \<le> b" using assms(5) by (rule power_le_imp_le_base)
  show ?thesis using 1 2 by (simp add: z_def)
qed

lemma powr_small_bounds:
  fixes x d :: real
  assumes "0 < x" "x \<le> 1" "0 \<le> d"
  shows "1 - d * (1 / x - 1) \<le> x powr d \<and> x powr d \<le> 1"
proof -
  have l: "1 - 1 / x \<le> ln x"
    using ln_le_minus_one [of "1 / x"] assms(1) by (simp add: ln_div)
  have 1: "1 + d * ln x \<le> exp (d * ln x)" by (rule exp_ge_add_one_self)
  have 2: "d * (1 - 1 / x) \<le> d * ln x"
    using l assms(3) by (rule mult_left_mono)
  have 3: "1 - d * (1 / x - 1) = 1 + d * (1 - 1 / x)"
    by (simp add: algebra_simps)
  have "1 - d * (1 / x - 1) \<le> exp (d * ln x)"
    unfolding 3 using 1 2 by linarith
  moreover have "x powr d \<le> 1"
    using assms by (intro powr_le1) simp_all
  ultimately show ?thesis using assms(1) by (simp add: powr_def)
qed

lemma pow_double_bounds:
  assumes "0 < x" "x \<le> 1" "0 \<le> a" "a ^ 5 \<le> x ^ 11" "x ^ 11 \<le> b ^ 5" "0 \<le> b"
    and "y = 11 / 5 + d" "0 \<le> d" "d * (1 / x - 1) \<le> eps" "eps \<le> 1"
    and "L \<le> a * (1 - eps) * (1 - 1 / 2 ^ 53)" "b * (1 + 1 / 2 ^ 53) \<le> H"
  shows "L \<le> pow_double x y \<and> pow_double x y \<le> H"
  unfolding pow_double_def
proof (rule to_double_bounds)
  have m: "a \<le> x powr (11 / 5) \<and> x powr (11 / 5) \<le> b"
    using assms(1,3,4,5,6) by (rule powr_11_5_bounds)
  have s: "1 - d * (1 / x - 1) \<le> x powr d \<and> x powr d \<le> 1"
    using assms(1,2,8) by (rule powr_small_bounds)
  have e: "x powr y = x powr (11 / 5) * x powr d"
    by (simp add: assms(7) powr_add)
  have "a * (1 - eps) \<le> x powr (11 / 5) * x powr d"
  proof (rule mult_mono)
    show "a \<le> x powr (11 / 5)" using m by simp
    show "1 - eps \<le> x powr d" using s assms(9) by linarith
    show "0 \<le> x powr (11 / 5)" by simp
    show "0 \<le> 1 - eps" using assms(10) by simp
  qed
  moreover have "x powr (11 / 5) * x powr d \<le> b * 1"
  proof (rule mult_mono)
    show "x powr (11 / 5) \<le> b" using m by simp
    show "x powr d \<le> 1" using s by simp
  qed (use assms in simp_all)
  ultimately show "a * (1 - eps) \<le> x powr y \<and> x powr y \<le> b"
    by (simp add: e)
  show "0 \<le> a * (1 - eps)" using assms(3,10) by simp
qed (use assms in simp_all)

lemma to_float_0 [simp]: "to_float 0 = 0"
  by (simp add: to_float_def rn_def)

lemma to_float_1 [simp]: "to_float 1 = 1"
  using to_float_eqI [of 0 1 8388608] by (simp add: power_int_minus)

lemma to_float_5 [simp]: "to_float 5 = 5"
  using to_float_eqI [of 2 5 10485760] by (simp add: power_int_minus)

lemma to_double_1 [simp]: "to_double 1 = 1"
  using to_double_eqI [of 0 1 4503599627370496] by (simp add: power_int_minus)

lemma darkLuminosity_float_luminance: "darkLuminosity = float_luminance darkOutline"
  by (simp add: darkLuminosity_def darkOutline_def)

lemma ChooseOutlineColor_float_rule:
  "ChooseOutlineColor c =
     (if div_float (max (float_luminance c) (float_luminance darkOutline))
                   (min (float_luminance c) (float_luminance darkOutline)) > 5
      then darkOutline else lightOutline)"
  by (cases c) (simp add: ChooseOutlineColor_def darkLuminosity_float_luminance Let_def)

lemma ChooseOutlineColor_dark: "ChooseOutlineColor darkOutline = lightOutline"
  by (simp add: ChooseOutlineColor_float_rule div_float_def)

subsection \<open>The rounded luminance of three colours\<close>

text \<open>
  Each intermediate result is enclosed between two decimal numbers, and the enclosure of the
  last sum lies within one rounding interval of \<^verbatim>\<open>float\<close>.
\<close>

lemma to_float_k0: "to_float 0.2126 = 891709 / 4194304"
  using to_float_eqI [of "-3" "0.2126" 14267344] by (simp add: power_int_minus)

lemma to_float_k1: "to_float 0.7152 = 11999065 / 16777216"
  using to_float_eqI [of "-1" "0.7152" 11999065] by (simp add: power_int_minus)

lemma to_float_k2: "to_float 0.0722 = 1211315 / 16777216"
  using to_float_eqI [of "-4" "0.0722" 9690520] by (simp add: power_int_minus)

lemma to_double_h: "to_double 0.05 = 3602879701896397 / 72057594037927936"
  using to_double_eqI [of "-5" "0.05" 7205759403792794] by (simp add: power_int_minus)

lemma to_double_y: "to_double 2.2 = 2476979795053773 / 1125899906842624"
  using to_double_eqI [of 1 "2.2" 4953959590107546] by (simp add: power_int_minus)

lemma float_luminance_dark: "float_luminance darkOutline = 13790389 / 268435456"
proof -
  have x0: "to_float 0.05 = 13421773 / 268435456"
    using to_float_eqI [of "-5" "0.05" 13421773] by (simp add: power_int_minus)
  define p0 where "p0 = pow_double (13421773 / 268435456) (2476979795053773 / 1125899906842624)"
  have p0: "0.001373200724149668 \<le> p0 \<and> p0 \<le> 0.001373200724149675"
    unfolding p0_def
    by (rule pow_double_bounds [where a = "0.001373200724149673" and b = "0.001373200724149674"
          and d = "1 / 5629499534213120" and eps = "0.000000000000003376"]) (simp_all add: power_divide)
  define t0 where "t0 = mul_double (891709 / 4194304) p0"
  have t0: "0.000291942464001363 \<le> t0 \<and> t0 \<le> 0.000291942464001366"
    unfolding t0_def by (rule mul_double_bounds [OF p0]) simp_all
  define t1 where "t1 = mul_double (11999065 / 16777216) p0"
  have t1: "0.000982113167471822 \<le> t1 \<and> t1 \<le> 0.000982113167471828"
    unfolding t1_def by (rule mul_double_bounds [OF p0]) simp_all
  define t2 where "t2 = mul_double (1211315 / 16777216) p0"
  have t2: "0.000099145092676481 \<le> t2 \<and> t2 \<le> 0.000099145092676483"
    unfolding t2_def by (rule mul_double_bounds [OF p0]) simp_all
  have s0: "3602879701896397 / 72057594037927936 \<le> (3602879701896397 / 72057594037927936::real)
      \<and> (3602879701896397 / 72057594037927936::real) \<le> 3602879701896397 / 72057594037927936"
    by simp
  define s1 where "s1 = add_double (3602879701896397 / 72057594037927936) t0"
  have s1: "0.05029194246400136 \<le> s1 \<and> s1 \<le> 0.050291942464001375"
    unfolding s1_def by (rule add_double_bounds [OF s0 t0]) simp_all
  define s2 where "s2 = add_double s1 t1"
  have s2: "0.051274055631473176 \<le> s2 \<and> s2 \<le> 0.051274055631473209"
    unfolding s2_def by (rule add_double_bounds [OF s1 t1]) simp_all
  define s3 where "s3 = add_double s2 t2"
  have s3: "0.051373200724149651 \<le> s3 \<and> s3 \<le> 0.051373200724149698"
    unfolding s3_def by (rule add_double_bounds [OF s2 t2]) simp_all
  have "to_float s3 = real_of_int 13790389 * 2 powi (-5 - 23)"
    by (rule to_float_eqI_bounds [OF s3]) (simp_all add: power_int_minus)
  then have r: "to_float s3 = 13790389 / 268435456"
    by (simp add: power_int_minus)
  have "float_luminance darkOutline = to_float s3"
    by (simp only: darkOutline_def float_luminance.simps x0 to_float_k0 to_float_k1 to_float_k2
          to_double_h to_double_y s3_def s2_def s1_def t0_def t1_def t2_def p0_def)
  then show ?thesis by (simp only: r)
qed

lemma float_luminance_accent:
  "float_luminance (239 / 255, 31 / 255, 127 / 255, 1) = 8618993 / 33554432"
proof -
  have x0: "to_float (239 / 255) = 982783 / 1048576"
    using to_float_eqI [of "-1" "239 / 255" 15724528] by (simp add: power_int_minus)
  have x1: "to_float (31 / 255) = 16316665 / 134217728"
    using to_float_eqI [of "-4" "31 / 255" 16316665] by (simp add: power_int_minus)
  have x2: "to_float (127 / 255) = 16711423 / 33554432"
    using to_float_eqI [of "-2" "127 / 255" 16711423] by (simp add: power_int_minus)
  define p0 where "p0 = pow_double (982783 / 1048576) (2476979795053773 / 1125899906842624)"
  have p0: "0.867135545133133763 \<le> p0 \<and> p0 \<le> 0.867135545133133968"
    unfolding p0_def
    by (rule pow_double_bounds [where a = "0.86713554513313387" and b = "0.867135545133133871"
          and d = "1 / 5629499534213120" and eps = "0.000000000000000012"]) (simp_all add: power_divide)
  define p1 where "p1 = pow_double (16316665 / 134217728) (2476979795053773 / 1125899906842624)"
  have p1: "0.009696328737546814 \<le> p1 \<and> p1 \<le> 0.009696328737546831"
    unfolding p1_def
    by (rule pow_double_bounds [where a = "0.009696328737546828" and b = "0.009696328737546829"
          and d = "1 / 5629499534213120" and eps = "0.000000000000001284"]) (simp_all add: power_divide)
  define p2 where "p2 = pow_double (16711423 / 33554432) (2476979795053773 / 1125899906842624)"
  have p2: "0.215764399720785634 \<le> p2 \<and> p2 \<le> 0.215764399720785722"
    unfolding p2_def
    by (rule pow_double_bounds [where a = "0.215764399720785697" and b = "0.215764399720785698"
          and d = "1 / 5629499534213120" and eps = "0.00000000000000018"]) (simp_all add: power_divide)
  define t0 where "t0 = mul_double (891709 / 4194304) p0"
  have t0: "0.18435301061037099 \<le> t0 \<and> t0 \<le> 0.184353010610371076"
    unfolding t0_def by (rule mul_double_bounds [OF p0]) simp_all
  define t1 where "t1 = mul_double (11999065 / 16777216) p1"
  have t1: "0.0069348143805976 \<le> t1 \<and> t1 \<le> 0.006934814380597614"
    unfolding t1_def by (rule mul_double_bounds [OF p1]) simp_all
  define t2 where "t2 = mul_double (1211315 / 16777216) p2"
  have t2: "0.01557818972157141 \<le> t2 \<and> t2 \<le> 0.015578189721571421"
    unfolding t2_def by (rule mul_double_bounds [OF p2]) simp_all
  have s0: "3602879701896397 / 72057594037927936 \<le> (3602879701896397 / 72057594037927936::real)
      \<and> (3602879701896397 / 72057594037927936::real) \<le> 3602879701896397 / 72057594037927936"
    by simp
  define s1 where "s1 = add_double (3602879701896397 / 72057594037927936) t0"
  have s1: "0.234353010610370966 \<le> s1 \<and> s1 \<le> 0.234353010610371105"
    unfolding s1_def by (rule add_double_bounds [OF s0 t0]) simp_all
  define s2 where "s2 = add_double s1 t1"
  have s2: "0.241287824990968539 \<le> s2 \<and> s2 \<le> 0.241287824990968746"
    unfolding s2_def by (rule add_double_bounds [OF s1 t1]) simp_all
  define s3 where "s3 = add_double s2 t2"
  have s3: "0.25686601471253992 \<le> s3 \<and> s3 \<le> 0.256866014712540196"
    unfolding s3_def by (rule add_double_bounds [OF s2 t2]) simp_all
  have "to_float s3 = real_of_int 8618993 * 2 powi (-2 - 23)"
    by (rule to_float_eqI_bounds [OF s3]) (simp_all add: power_int_minus)
  then have r: "to_float s3 = 8618993 / 33554432"
    by (simp add: power_int_minus)
  have "float_luminance (239 / 255, 31 / 255, 127 / 255, 1) = to_float s3"
    by (simp only: float_luminance.simps x0 x1 x2 to_float_k0 to_float_k1 to_float_k2
          to_double_h to_double_y s3_def s2_def s1_def t0_def t1_def t2_def p0_def p1_def p2_def)
  then show ?thesis by (simp only: r)
qed

lemma float_luminance_white: "float_luminance white = 4404019 / 4194304"
proof -
  have x0: "to_float 1 = 1" by simp
  define p0 where "p0 = pow_double (1) (2476979795053773 / 1125899906842624)"
  have p0: "0.999999999999999888 \<le> p0 \<and> p0 \<le> 1.000000000000000113"
    unfolding p0_def
    by (rule pow_double_bounds [where a = "1" and b = "1.000000000000000001"
          and d = "1 / 5629499534213120" and eps = "0"]) (simp_all add: power_divide)
  define t0 where "t0 = mul_double (891709 / 4194304) p0"
  have t0: "0.212599992752075147 \<le> t0 \<and> t0 \<le> 0.212599992752075243"
    unfolding t0_def by (rule mul_double_bounds [OF p0]) simp_all
  define t1 where "t1 = mul_double (11999065 / 16777216) p0"
  have t1: "0.71520000696182235 \<le> t1 \<and> t1 \<le> 0.71520000696182267"
    unfolding t1_def by (rule mul_double_bounds [OF p0]) simp_all
  define t2 where "t2 = mul_double (1211315 / 16777216) p0"
  have t2: "0.072200000286102278 \<le> t2 \<and> t2 \<le> 0.072200000286102312"
    unfolding t2_def by (rule mul_double_bounds [OF p0]) simp_all
  have s0: "3602879701896397 / 72057594037927936 \<le> (3602879701896397 / 72057594037927936::real)
      \<and> (3602879701896397 / 72057594037927936::real) \<le> 3602879701896397 / 72057594037927936"
    by simp
  define s1 where "s1 = add_double (3602879701896397 / 72057594037927936) t0"
  have s1: "0.26259999275207512 \<le> s1 \<and> s1 \<le> 0.262599992752075275"
    unfolding s1_def by (rule add_double_bounds [OF s0 t0]) simp_all
  define s2 where "s2 = add_double s1 t1"
  have s2: "0.977799999713897361 \<le> s2 \<and> s2 \<le> 0.977799999713898054"
    unfolding s2_def by (rule add_double_bounds [OF s1 t1]) simp_all
  define s3 where "s3 = add_double s2 t2"
  have s3: "1.049999999999999522 \<le> s3 \<and> s3 \<le> 1.050000000000000483"
    unfolding s3_def by (rule add_double_bounds [OF s2 t2]) simp_all
  have "to_float s3 = real_of_int 8808038 * 2 powi (0 - 23)"
    by (rule to_float_eqI_bounds [OF s3]) (simp_all add: power_int_minus)
  then have r: "to_float s3 = 4404019 / 4194304"
    by (simp add: power_int_minus)
  have w: "white = (1, 1, 1, 0.95)" by (simp add: white_def)
  have "float_luminance white = to_float s3"
    by (simp only: w float_luminance.simps x0 to_float_k0 to_float_k1 to_float_k2
          to_double_h to_double_y s3_def s2_def s1_def t0_def t1_def t2_def p0_def)
  then show ?thesis by (simp only: r)
qed

lemma div_float_accent:
  "div_float (max (float_luminance (239 / 255, 31 / 255, 127 / 255, 1)) (float_luminance darkOutline))
             (min (float_luminance (239 / 255, 31 / 255, 127 / 255, 1)) (float_luminance darkOutline)) = 5"
  unfolding div_float_def float_luminance_accent float_luminance_dark
  using to_float_eqI [of 2 "(8618993 / 33554432) / (13790389 / 268435456)" 10485760]
  by (simp add: power_int_minus)

lemma div_float_white:
  "div_float (max (float_luminance white) (float_luminance darkOutline))
             (min (float_luminance white) (float_luminance darkOutline)) = 5357875 / 262144"
  unfolding div_float_def float_luminance_white float_luminance_dark
  using to_float_eqI [of 4 "(4404019 / 4194304) / (13790389 / 268435456)" 10715750]
  by (simp add: power_int_minus)

subsection \<open>The exact luminance ratio\<close>

lemma luminance_ratio_above_5:
  fixes r g b d lr lg lb hd :: real
  assumes "lr \<le> r powr (11 / 5)" "lg \<le> g powr (11 / 5)" "lb \<le> b powr (11 / 5)"
    and "d powr (11 / 5) \<le> hd"
    and "5 * (0.05 + hd) < 0.05 + 0.2126 * lr + 0.7152 * lg + 0.0722 * lb"
  shows "5 < max (relative_luminance (r, g, b, a)) (relative_luminance (d, d, d, a'))
               / min (relative_luminance (r, g, b, a)) (relative_luminance (d, d, d, a'))"
proof -
  define Lc where "Lc = relative_luminance (r, g, b, a)"
  define Ld where "Ld = relative_luminance (d, d, d, a')"
  have c: "0.05 + 0.2126 * lr + 0.7152 * lg + 0.0722 * lb \<le> Lc"
    using assms(1,2,3) by (simp add: Lc_def)
  have d: "Ld = 0.05 + d powr (11 / 5)"
    by (simp add: Ld_def)
  have d1: "Ld \<le> 0.05 + hd" using assms(4) by (simp add: d)
  have d0: "0 < Ld" unfolding d by (rule add_pos_nonneg) simp_all
  have lt: "5 * Ld < Lc" using c d1 assms(5) by simp
  then have "Ld \<le> Lc" using d0 by linarith
  then have m: "max Lc Ld = Lc" "min Lc Ld = Ld" by simp_all
  have "5 < Lc / Ld" using lt d0 by (simp add: pos_less_divide_eq)
  then show ?thesis unfolding Lc_def [symmetric] Ld_def [symmetric] m .
qed

lemma relative_luminance_accent:
  "5 < max (relative_luminance (239 / 255, 31 / 255, 127 / 255, 1)) (relative_luminance darkOutline)
           / min (relative_luminance (239 / 255, 31 / 255, 127 / 255, 1)) (relative_luminance darkOutline)"
  unfolding darkOutline_def
proof (rule luminance_ratio_above_5 [where lr = "0.8671355375209" and lg = "0.00969632870165" and lb = "0.21576439960939"
         and hd = "0.00137320067914"])
  show "0.8671355375209 \<le> (239 / 255::real) powr (11 / 5)"
    using powr_11_5_bounds [of "239 / 255" "0.8671355375209" "0.86713553752091"]
    by (simp add: power_divide)
  show "0.00969632870165 \<le> (31 / 255::real) powr (11 / 5)"
    using powr_11_5_bounds [of "31 / 255" "0.00969632870165" "0.00969632870166"]
    by (simp add: power_divide)
  show "0.21576439960939 \<le> (127 / 255::real) powr (11 / 5)"
    using powr_11_5_bounds [of "127 / 255" "0.21576439960939" "0.2157643996094"]
    by (simp add: power_divide)
  show "(0.05::real) powr (11 / 5) \<le> 0.00137320067914"
    using powr_11_5_bounds [of "0.05" "0.00137320067913" "0.00137320067914"]
    by (simp add: power_divide)
qed simp

lemma to_float_accent:
  "to_float (239 / 255) = 982783 / 1048576" "to_float (31 / 255) = 16316665 / 134217728"
  "to_float (127 / 255) = 16711423 / 33554432" "to_float 0.05 = 13421773 / 268435456"
  using to_float_eqI [of "-1" "239 / 255" 15724528] apply (simp add: power_int_minus)
  using to_float_eqI [of "-4" "31 / 255" 16316665] apply (simp add: power_int_minus)
  using to_float_eqI [of "-2" "127 / 255" 16711423] apply (simp add: power_int_minus)
  using to_float_eqI [of "-5" "0.05" 13421773] by (simp add: power_int_minus)

lemma relative_luminance_accent_stored:
  "5 < max (relative_luminance (to_float (239 / 255), to_float (31 / 255), to_float (127 / 255), 1)) (relative_luminance (to_float 0.05, to_float 0.05, to_float 0.05, 0.95))
           / min (relative_luminance (to_float (239 / 255), to_float (31 / 255), to_float (127 / 255), 1)) (relative_luminance (to_float 0.05, to_float 0.05, to_float 0.05, 0.95))"
  unfolding to_float_accent
proof (rule luminance_ratio_above_5 [where lr = "0.86713554513313" and lg = "0.00969632873754" and lb = "0.21576439972078"
         and hd = "0.00137320072415"])
  show "0.86713554513313 \<le> (982783 / 1048576::real) powr (11 / 5)"
    using powr_11_5_bounds [of "982783 / 1048576" "0.86713554513313" "0.86713554513314"]
    by (simp add: power_divide)
  show "0.00969632873754 \<le> (16316665 / 134217728::real) powr (11 / 5)"
    using powr_11_5_bounds [of "16316665 / 134217728" "0.00969632873754" "0.00969632873755"]
    by (simp add: power_divide)
  show "0.21576439972078 \<le> (16711423 / 33554432::real) powr (11 / 5)"
    using powr_11_5_bounds [of "16711423 / 33554432" "0.21576439972078" "0.21576439972079"]
    by (simp add: power_divide)
  show "(13421773 / 268435456::real) powr (11 / 5) \<le> 0.00137320072415"
    using powr_11_5_bounds [of "13421773 / 268435456" "0.00137320072414" "0.00137320072415"]
    by (simp add: power_divide)
qed simp

lemma ChooseOutlineColor_accent:
  "ChooseOutlineColor (239 / 255, 31 / 255, 127 / 255, 1) = lightOutline"
  by (simp only: ChooseOutlineColor_float_rule div_float_accent) simp

lemma ChooseOutlineColor_white: "ChooseOutlineColor white = darkOutline"
  by (simp only: ChooseOutlineColor_float_rule div_float_white) simp

text \<open>
  C7 as stated, with the luminances and their ratio taken in exact arithmetic, fails for the
  text colour \<open>(239/255, 31/255, 127/255)\<close>, which the colour code with the bytes
  \<^verbatim>\<open>EF 1F 7F\<close> sets. The ratio of the relative luminance of this colour to that of the
  dark outline is greater than 5 (about 5.0000003), for the components as written and for
  the \<^verbatim>\<open>float\<close>s that store them, so the rule of the spec selects the dark outline. The
  function returns the light outline: the \<^verbatim>\<open>float\<close> quotient of the two rounded luminances
  is 5, which is not greater than 5.
\<close>

theorem ChooseOutlineColor_ratio_above_5:
  "ChooseOutlineColor (239 / 255, 31 / 255, 127 / 255, 1) = lightOutline
   \<and> 5 < max (relative_luminance (239 / 255, 31 / 255, 127 / 255, 1))
               (relative_luminance darkOutline)
           / min (relative_luminance (239 / 255, 31 / 255, 127 / 255, 1))
                 (relative_luminance darkOutline)
   \<and> 5 < max (relative_luminance (to_float (239 / 255), to_float (31 / 255),
                                    to_float (127 / 255), 1))
               (relative_luminance (to_float 0.05, to_float 0.05, to_float 0.05, 0.95))
           / min (relative_luminance (to_float (239 / 255), to_float (31 / 255),
                                      to_float (127 / 255), 1))
                 (relative_luminance (to_float 0.05, to_float 0.05, to_float 0.05, 0.95))
   \<and> div_float (max (float_luminance (239 / 255, 31 / 255, 127 / 255, 1))
                       (float_luminance darkOutline))
                  (min (float_luminance (239 / 255, 31 / 255, 127 / 255, 1))
                       (float_luminance darkOutline)) = 5"
  using ChooseOutlineColor_accent relative_luminance_accent relative_luminance_accent_stored
    div_float_accent
  by (intro conjI)

text \<open>
  C7, amended. \<open>ChooseOutlineColor\<close> is a function of the text colour alone. It computes the
  luminance \<open>0.05 + 0.2126 R^2.2 + 0.7152 G^2.2 + 0.0722 B^2.2\<close> of the text colour and of the
  dark outline in floating point, each operation rounded to \<^verbatim>\<open>double\<close> and the sum to
  \<^verbatim>\<open>float\<close>, and returns the dark outline when the \<^verbatim>\<open>float\<close> quotient of the greater by the
  lesser of the two exceeds 5, and the light outline otherwise. For the dark outline colour
  itself it returns the light outline; for white it returns the dark one.
\<close>

theorem ChooseOutlineColor_float_contrast:
  "ChooseOutlineColor c =
     (if div_float (max (float_luminance c) (float_luminance darkOutline))
                   (min (float_luminance c) (float_luminance darkOutline)) > 5.0
      then darkOutline else lightOutline)
   \<and> ChooseOutlineColor darkOutline = lightOutline
   \<and> ChooseOutlineColor white = darkOutline"
  using ChooseOutlineColor_float_rule [of c] ChooseOutlineColor_dark ChooseOutlineColor_white
  by simp

end
